theory Spec2Isabelle
  imports Main "HOL-Library.Word"
begin

section \<open>CPU distribution kernels (ATen/native/cpu/DistributionTemplates.h)\<close>

text \<open>
  The header is a set of function templates, generic in the generator type \<open>RNG\<close> and
  instantiated once per element type by the dispatch macros. The embedding keeps that
  shape: the generator is a type variable \<open>'g\<close>, an element of a tensor is a type variable
  \<open>'v\<close>, and everything the header takes from other headers (the generator's primitives,
  the distribution objects, numeric conversion, the floating-point operations, the vector
  unit) is a field of one record of collaborators that every kernel receives.
  A call runs on a state: the output tensor, the generator, and the sequence of effects
  (calls of a distribution on the generator, stores to the output buffer) in program order.
  The mutex of the generator is not modelled: a kernel is one sequential critical section.
\<close>

subsection \<open>Element types and dispatch\<close>

text \<open>
  Modelled from the spec: \<open>c10/core/ScalarType.h\<close> is not among the sources. The tags
  are the element types the kernels name (integers of four widths and the unsigned byte,
  bool, the four floating types) and the complex types, which no kernel here accepts,
  under the names of the header's constants (\<open>kInt\<close> for \<open>ScalarType::Int\<close>).
\<close>

datatype ScalarType =
  kByte | kChar | kShort | kInt | kLong | kHalf | kFloat | kDouble
  | kComplexHalf | kComplexFloat | kComplexDouble | kBool | kBFloat16

text \<open>
  Modelled from the spec: \<open>isFloatingType\<close> of \<open>c10/core/ScalarType.h\<close> (the exponential
  sampler "requires floating output type").
\<close>

definition isFloatingType :: "ScalarType \<Rightarrow> bool" where
  "isFloatingType t = (t = kDouble \<or> t = kFloat \<or> t = kHalf \<or> t = kBFloat16)"

text \<open>
  Modelled from the spec: the dispatch macros of \<open>ATen/Dispatch.h\<close> ("a mechanism taking
  a runtime type tag and a generic body, invoking the body once for the matching concrete
  type", over "specific enumerated sets"). \<open>ALL_TYPES\<close> is the integer types and the two
  standard floating types: \<open>random_full_64_bits_range_kernel\<close> tests \<open>scalar_t\<close> against
  \<open>double\<close> and \<open>float\<close> under \<open>AT_DISPATCH_ALL_TYPES_AND\<close>. \<open>FLOATING_TYPES\<close> is
  \<open>double\<close> and \<open>float\<close>. The \<open>_ANDn\<close> forms add the tags they are given.
\<close>

definition AT_DISPATCH_ALL_TYPES :: "ScalarType list" where
  "AT_DISPATCH_ALL_TYPES = [kByte, kChar, kDouble, kFloat, kInt, kLong, kShort]"

definition AT_DISPATCH_FLOATING_TYPES :: "ScalarType list" where
  "AT_DISPATCH_FLOATING_TYPES = [kDouble, kFloat]"

definition AT_DISPATCH_ALL_TYPES_AND :: "ScalarType \<Rightarrow> ScalarType list" where
  "AT_DISPATCH_ALL_TYPES_AND a = AT_DISPATCH_ALL_TYPES @ [a]"

definition AT_DISPATCH_ALL_TYPES_AND2 :: "ScalarType \<Rightarrow> ScalarType \<Rightarrow> ScalarType list" where
  "AT_DISPATCH_ALL_TYPES_AND2 a b = AT_DISPATCH_ALL_TYPES @ [a, b]"

definition AT_DISPATCH_ALL_TYPES_AND3 ::
  "ScalarType \<Rightarrow> ScalarType \<Rightarrow> ScalarType \<Rightarrow> ScalarType list" where
  "AT_DISPATCH_ALL_TYPES_AND3 a b c = AT_DISPATCH_ALL_TYPES @ [a, b, c]"

definition AT_DISPATCH_FLOATING_TYPES_AND2 :: "ScalarType \<Rightarrow> ScalarType \<Rightarrow> ScalarType list" where
  "AT_DISPATCH_FLOATING_TYPES_AND2 a b = AT_DISPATCH_FLOATING_TYPES @ [a, b]"

datatype error =
  NotImplemented string ScalarType
  | CheckFailed string
  | DivisionByZero
  | OutOfBounds
  | ExpandFailed

subsection \<open>Distributions, tensors, state\<close>

text \<open>
  A distribution object of \<open>ATen/core/DistributionsHelper.h\<close>: the class template, the
  type it is instantiated at, and its constructor arguments.
\<close>

datatype 'v distribution =
  uniform_int_from_to_distribution ScalarType "64 word" "64 word"
  | uniform_int_full_range_distribution ScalarType
  | uniform_int_distribution ScalarType
  | uniform_real_distribution ScalarType 'v 'v
  | normal_distribution ScalarType 'v 'v
  | cauchy_distribution ScalarType 'v 'v
  | lognormal_distribution ScalarType 'v 'v
  | geometric_distribution ScalarType 'v
  | exponential_distribution ScalarType 'v
  | bernoulli_distribution ScalarType 'v

fun precision :: "'v distribution \<Rightarrow> ScalarType" where
  "precision (uniform_int_from_to_distribution T r b) = T"
| "precision (uniform_int_full_range_distribution T) = T"
| "precision (uniform_int_distribution T) = T"
| "precision (uniform_real_distribution T a b) = T"
| "precision (normal_distribution T a b) = T"
| "precision (cauchy_distribution T a b) = T"
| "precision (lognormal_distribution T a b) = T"
| "precision (geometric_distribution T p) = T"
| "precision (exponential_distribution T l) = T"
| "precision (bernoulli_distribution T p) = T"

datatype 'v event = Draw "'v distribution" | Write nat

record 'v tensor =
  scalar_type :: ScalarType
  is_contiguous :: bool
  data :: "'v list"

record ('g, 'v) state =
  self :: "'v tensor"
  generator :: 'g
  events :: "'v event list"

text \<open>
  The collaborators. \<open>rng_random\<close> and \<open>rng_random64\<close> are the generator's \<open>random()\<close> and
  \<open>random64()\<close>; \<open>sample\<close> is \<open>operator()\<close> of a distribution object on the generator;
  \<open>from_int64 T\<close> is \<open>static_cast<T>\<close> of a 64-bit integer and \<open>static_cast S T\<close> that
  of a value of type \<open>S\<close>; the \<open>f\<close> operations are the arithmetic and \<open>std::\<close> functions
  at a given element type, the \<open>v\<close> operations one lane of \<open>Vectorized<float>\<close>;
  \<open>two_pi\<close> is the double \<open>2.0f * c10::pi<double>\<close>; \<open>Vec_size\<close> is
  \<open>Vectorized<float>::size()\<close>; \<open>expand_inplace\<close> expands the probability tensor to the
  element count of the output.
\<close>

record ('g, 'v) collaborators =
  rng_random :: "'g \<Rightarrow> 32 word \<times> 'g"
  rng_random64 :: "'g \<Rightarrow> 64 word \<times> 'g"
  sample :: "'v distribution \<Rightarrow> 'g \<Rightarrow> 'v \<times> 'g"
  from_int64 :: "ScalarType \<Rightarrow> 64 word \<Rightarrow> 'v"
  static_cast :: "ScalarType \<Rightarrow> ScalarType \<Rightarrow> 'v \<Rightarrow> 'v"
  two_pi :: 'v
  fadd :: "ScalarType \<Rightarrow> 'v \<Rightarrow> 'v \<Rightarrow> 'v"
  fsub :: "ScalarType \<Rightarrow> 'v \<Rightarrow> 'v \<Rightarrow> 'v"
  fmul :: "ScalarType \<Rightarrow> 'v \<Rightarrow> 'v \<Rightarrow> 'v"
  flog :: "ScalarType \<Rightarrow> 'v \<Rightarrow> 'v"
  fsqrt :: "ScalarType \<Rightarrow> 'v \<Rightarrow> 'v"
  fcos :: "ScalarType \<Rightarrow> 'v \<Rightarrow> 'v"
  fsin :: "ScalarType \<Rightarrow> 'v \<Rightarrow> 'v"
  Vec_size :: nat
  vadd :: "'v \<Rightarrow> 'v \<Rightarrow> 'v"
  vsub :: "'v \<Rightarrow> 'v \<Rightarrow> 'v"
  vmul :: "'v \<Rightarrow> 'v \<Rightarrow> 'v"
  vlog :: "'v \<Rightarrow> 'v"
  vsqrt :: "'v \<Rightarrow> 'v"
  vcos :: "'v \<Rightarrow> 'v"
  vsin :: "'v \<Rightarrow> 'v"
  expand_inplace :: "nat \<Rightarrow> 'v tensor \<Rightarrow> 'v tensor option"

definition numel :: "('g, 'v) state \<Rightarrow> nat" where
  "numel \<sigma> = length (data (self \<sigma>))"

definition dtype :: "('g, 'v) state \<Rightarrow> ScalarType" where
  "dtype \<sigma> = scalar_type (self \<sigma>)"

text \<open>\<open>data[i] = v\<close>.\<close>

definition store :: "nat \<Rightarrow> 'v \<Rightarrow> ('g, 'v) state \<Rightarrow> ('g, 'v) state" where
  "store i v \<sigma> =
     \<sigma>\<lparr>self := (self \<sigma>)\<lparr>data := (data (self \<sigma>))[i := v]\<rparr>,
       events := events \<sigma> @ [Write i]\<rparr>"

text \<open>\<open>d(generator)\<close> for a distribution object \<open>d\<close>.\<close>

definition draw ::
  "('g, 'v) collaborators \<Rightarrow> 'v distribution \<Rightarrow> ('g, 'v) state \<Rightarrow> 'v \<times> ('g, 'v) state" where
  "draw E d \<sigma> =
     (case sample E d (generator \<sigma>) of
        (v, g') \<Rightarrow> (v, \<sigma>\<lparr>generator := g', events := events \<sigma> @ [Draw d]\<rparr>))"

text \<open>
  Modelled from the spec: \<open>cpu_serial_kernel\<close> of \<open>ATen/native/cpu/Loops.h\<close> ("invoke a
  per-element function once per output position, producing each output element from zero
  or more aligned input elements"). The positions are visited in order; an error raised
  by the per-element function ends the loop.
\<close>

primrec serial_loop ::
  "('a \<Rightarrow> ('g, 'v) state \<Rightarrow> (error + 'v) \<times> ('g, 'v) state) \<Rightarrow> (nat \<times> 'a) list \<Rightarrow>
   ('g, 'v) state \<Rightarrow> error option \<times> ('g, 'v) state" where
  "serial_loop f [] \<sigma> = (None, \<sigma>)"
| "serial_loop f (ia # rest) \<sigma> =
     (case f (snd ia) \<sigma> of
        (Inl e, \<sigma>') \<Rightarrow> (Some e, \<sigma>')
      | (Inr v, \<sigma>') \<Rightarrow> serial_loop f rest (store (fst ia) v \<sigma>'))"

definition cpu_serial_kernel ::
  "(('g, 'v) state \<Rightarrow> (error + 'v) \<times> ('g, 'v) state) \<Rightarrow> ('g, 'v) state \<Rightarrow>
   error option \<times> ('g, 'v) state" where
  "cpu_serial_kernel f \<sigma> = serial_loop (\<lambda>u. f) (map (\<lambda>i. (i, ())) [0..<numel \<sigma>]) \<sigma>"

definition cpu_serial_kernel_unary ::
  "('v \<Rightarrow> ('g, 'v) state \<Rightarrow> (error + 'v) \<times> ('g, 'v) state) \<Rightarrow> 'v list \<Rightarrow> ('g, 'v) state \<Rightarrow>
   error option \<times> ('g, 'v) state" where
  "cpu_serial_kernel_unary f inputs \<sigma> = serial_loop f (zip [0..<numel \<sigma>] inputs) \<sigma>"

definition AT_DISPATCH ::
  "ScalarType list \<Rightarrow> ScalarType \<Rightarrow> string \<Rightarrow>
   (ScalarType \<Rightarrow> ('g, 'v) state \<Rightarrow> error option \<times> ('g, 'v) state) \<Rightarrow>
   ('g, 'v) state \<Rightarrow> error option \<times> ('g, 'v) state" where
  "AT_DISPATCH types t name body \<sigma> =
     (if t \<in> set types then body t \<sigma> else (Some (NotImplemented name t), \<sigma>))"

text \<open>The per-element function of most kernels: draw from a distribution, then narrow.\<close>

definition sample_as ::
  "('g, 'v) collaborators \<Rightarrow> 'v distribution \<Rightarrow> ('v \<Rightarrow> 'v) \<Rightarrow> ('g, 'v) state \<Rightarrow>
   (error + 'v) \<times> ('g, 'v) state" where
  "sample_as E d conv \<sigma> = (case draw E d \<sigma> of (v, \<sigma>') \<Rightarrow> (Inr (conv v), \<sigma>'))"

subsection \<open>Exponential\<close>

definition exponential_kernel ::
  "('g, 'v) collaborators \<Rightarrow> 'v \<Rightarrow> ('g, 'v) state \<Rightarrow> error option \<times> ('g, 'v) state" where
  "exponential_kernel E lambda \<sigma> =
     (if \<not> isFloatingType (dtype \<sigma>) then
        (Some (CheckFailed ''Exponential distribution is a continuous probability distribution. dtype must be a floating point but you specified ''), \<sigma>)
      else
        AT_DISPATCH (AT_DISPATCH_FLOATING_TYPES_AND2 kHalf kBFloat16) (dtype \<sigma>) ''exponential_cpu''
          (\<lambda>scalar_t. cpu_serial_kernel
             (sample_as E (exponential_distribution kDouble lambda) (static_cast E kDouble scalar_t)))
          \<sigma>)"

subsection \<open>Random\<close>

text \<open>
  Modelled from the spec: \<open>uniform_int_from_to_distribution<T>::operator()\<close> of
  \<open>ATen/core/DistributionsHelper.h\<close> ("draw a value uniformly distributed across
  \<open>[0, range)\<close> using the generator's integer primitive with the modulus scheme appropriate to
  the element's bit width, then add \<open>base\<close>"): a 64-bit draw for the element types that hold
  64-bit values when the range needs it, a 32-bit draw otherwise, reduced modulo \<open>range\<close>
  and offset by \<open>base\<close> in unsigned 64-bit arithmetic, then converted to the element type.
  For \<open>range = 0\<close> there is no value to draw (the remainder by zero is undefined in C++):
  the call fails after the draw.
\<close>

definition uniform_int_from_to :: "64 word \<Rightarrow> 64 word \<Rightarrow> 64 word \<Rightarrow> 64 word" where
  "uniform_int_from_to val range' base' = (val mod range') + base'"

definition uniform_int_from_to_sample ::
  "('g, 'v) collaborators \<Rightarrow> ScalarType \<Rightarrow> 64 word \<Rightarrow> 64 word \<Rightarrow> 'g \<Rightarrow> 64 word \<times> 'g" where
  "uniform_int_from_to_sample E T range' base' g =
     (case (if (T = kLong \<or> T = kDouble \<or> T = kFloat \<or> T = kBFloat16) \<and> 2 ^ 32 \<le> range'
            then rng_random64 E g
            else (case rng_random E g of (r, g') \<Rightarrow> (ucast r, g'))) of
        (val, g') \<Rightarrow> (uniform_int_from_to val range' base', g'))"

definition uniform_int_from_to_call ::
  "('g, 'v) collaborators \<Rightarrow> ScalarType \<Rightarrow> 64 word \<Rightarrow> 64 word \<Rightarrow> ('g, 'v) state \<Rightarrow>
   (error + 'v) \<times> ('g, 'v) state" where
  "uniform_int_from_to_call E T range' base' \<sigma> =
     (case uniform_int_from_to_sample E T range' base' (generator \<sigma>) of
        (w, g') \<Rightarrow>
          (if range' = 0 then Inl DivisionByZero else Inr (from_int64 E T w),
           \<sigma>\<lparr>generator := g',
             events := events \<sigma> @ [Draw (uniform_int_from_to_distribution T range' base')]\<rparr>))"

definition random_from_to_kernel ::
  "('g, 'v) collaborators \<Rightarrow> 64 word \<Rightarrow> 64 word \<Rightarrow> ('g, 'v) state \<Rightarrow>
   error option \<times> ('g, 'v) state" where
  "random_from_to_kernel E range' base' \<sigma> =
     AT_DISPATCH (AT_DISPATCH_ALL_TYPES_AND3 kBool kHalf kBFloat16) (dtype \<sigma>)
       ''random_from_to_kernel_cpu''
       (\<lambda>scalar_t. cpu_serial_kernel (uniform_int_from_to_call E scalar_t range' base')) \<sigma>"

definition random_full_64_bits_range_kernel ::
  "('g, 'v) collaborators \<Rightarrow> ('g, 'v) state \<Rightarrow> error option \<times> ('g, 'v) state" where
  "random_full_64_bits_range_kernel E \<sigma> =
     AT_DISPATCH (AT_DISPATCH_ALL_TYPES_AND kBFloat16) (dtype \<sigma>)
       ''random_full_64_bits_range_kernel_cpu''
       (\<lambda>scalar_t \<sigma>.
          if scalar_t = kLong \<or> scalar_t = kDouble \<or> scalar_t = kFloat \<or> scalar_t = kBFloat16
          then cpu_serial_kernel
                 (sample_as E (uniform_int_full_range_distribution scalar_t) (\<lambda>v. v)) \<sigma>
          else (Some (CheckFailed ''random_full_64_bits_range_kernel_cpu handles only int64, double, float and bfloat16''), \<sigma>))
       \<sigma>"


subsection \<open>Normal\<close>

text \<open>
  \<open>normal_fill_16(data + off, mean, std)\<close>: the pointer argument is the offset \<open>off\<close>
  into the buffer. One round of the loop over \<open>j\<close>, then the loop.
\<close>

definition normal_fill_16_step ::
  "('g, 'v) collaborators \<Rightarrow> ScalarType \<Rightarrow> nat \<Rightarrow> 'v \<Rightarrow> 'v \<Rightarrow> nat \<Rightarrow> ('g, 'v) state \<Rightarrow>
   ('g, 'v) state" where
  "normal_fill_16_step E T off mean std j \<sigma> =
     (let u1 = fsub E T (from_int64 E T 1) (data (self \<sigma>) ! (off + j));
          u2 = data (self \<sigma>) ! (off + j + 8);
          radius = fsqrt E T (fmul E T (from_int64 E T (- 2)) (flog E T u1));
          theta = static_cast E kDouble T (fmul E kDouble (two_pi E) (static_cast E T kDouble u2))
      in store (off + j + 8) (fadd E T (fmul E T (fmul E T radius (fsin E T theta)) std) mean)
           (store (off + j) (fadd E T (fmul E T (fmul E T radius (fcos E T theta)) std) mean) \<sigma>))"

definition normal_fill_16 ::
  "('g, 'v) collaborators \<Rightarrow> ScalarType \<Rightarrow> nat \<Rightarrow> 'v \<Rightarrow> 'v \<Rightarrow> ('g, 'v) state \<Rightarrow> ('g, 'v) state" where
  "normal_fill_16 E T off mean std \<sigma> = fold (normal_fill_16_step E T off mean std) [0..<8] \<sigma>"

text \<open>
  \<open>normal_fill_16_vectorize(data + off, ...)\<close>: \<open>Vec::loadu\<close> reads \<open>Vec::size()\<close>
  elements, the arithmetic is lane by lane, \<open>store\<close> writes the lanes back in order.
\<close>

definition loadu :: "nat \<Rightarrow> nat \<Rightarrow> ('g, 'v) state \<Rightarrow> 'v list" where
  "loadu n off \<sigma> = map (\<lambda>k. data (self \<sigma>) ! (off + k)) [0..<n]"

definition store_vec :: "nat \<Rightarrow> 'v list \<Rightarrow> ('g, 'v) state \<Rightarrow> ('g, 'v) state" where
  "store_vec off vec \<sigma> = fold (\<lambda>k. store (off + k) (vec ! k)) [0..<length vec] \<sigma>"

definition normal_fill_16_vectorize ::
  "('g, 'v) collaborators \<Rightarrow> nat \<Rightarrow> 'v \<Rightarrow> 'v \<Rightarrow> 'v \<Rightarrow> 'v \<Rightarrow> 'v \<Rightarrow> ('g, 'v) state \<Rightarrow>
   ('g, 'v) state" where
  "normal_fill_16_vectorize E off two_pi_v one minus_two mean std \<sigma> =
     (let u1 = map (vsub E one) (loadu (Vec_size E) off \<sigma>);
          u2 = loadu (Vec_size E) (off + Vec_size E) \<sigma>;
          radius = map (\<lambda>x. vsqrt E (vmul E minus_two (vlog E x))) u1;
          theta = map (vmul E two_pi_v) u2;
          output_vec = map2 (\<lambda>r t. vadd E (vmul E (vmul E r (vcos E t)) std) mean) radius theta;
          output_vec2 = map2 (\<lambda>r t. vadd E (vmul E (vmul E r (vsin E t)) std) mean) radius theta
      in store_vec (off + Vec_size E) output_vec2 (store_vec off output_vec \<sigma>))"

text \<open>\<open>for (i : irange(n)) data[off + i] = uniform(generator)\<close> with \<open>uniform(0, 1)\<close>.\<close>

primrec uniform_loop ::
  "('g, 'v) collaborators \<Rightarrow> ScalarType \<Rightarrow> nat \<Rightarrow> nat list \<Rightarrow> ('g, 'v) state \<Rightarrow> ('g, 'v) state" where
  "uniform_loop E T off [] \<sigma> = \<sigma>"
| "uniform_loop E T off (i # rest) \<sigma> =
     (case draw E (uniform_real_distribution T (from_int64 E T 0) (from_int64 E T 1)) \<sigma> of
        (v, \<sigma>') \<Rightarrow> uniform_loop E T off rest (store (off + i) v \<sigma>'))"

text \<open>\<open>for (int64_t i = 0; i < size - 15; i += 16) block(data + i)\<close>.\<close>

function block_loop ::
  "(nat \<Rightarrow> ('g, 'v) state \<Rightarrow> ('g, 'v) state) \<Rightarrow> nat \<Rightarrow> nat \<Rightarrow> ('g, 'v) state \<Rightarrow> ('g, 'v) state" where
  "block_loop block i size' \<sigma> =
     (if int i < int size' - 15 then block_loop block (i + 16) size' (block i \<sigma>) else \<sigma>)"
  by pat_completeness auto

termination
  by (relation "measure (\<lambda>(block, i, size', \<sigma>). size' - i)") auto

declare block_loop.simps [simp del]

definition normal_fill ::
  "('g, 'v) collaborators \<Rightarrow> ScalarType \<Rightarrow> 'v \<Rightarrow> 'v \<Rightarrow> ('g, 'v) state \<Rightarrow>
   error option \<times> ('g, 'v) state" where
  "normal_fill E T mean std \<sigma> =
     (let size' = numel \<sigma>;
          \<sigma>1 = uniform_loop E T 0 [0..<size'] \<sigma>;
          \<sigma>2 = block_loop (\<lambda>i. normal_fill_16 E T i mean std) 0 size' \<sigma>1
      in if size' mod 16 \<noteq> 0 then
           (if size' < 16 then (Some OutOfBounds, \<sigma>2)
            else (None, normal_fill_16 E T (size' - 16) mean std
                          (uniform_loop E T (size' - 16) [0..<16] \<sigma>2)))
         else (None, \<sigma>2))"

definition normal_fill_vectorize ::
  "('g, 'v) collaborators \<Rightarrow> ScalarType \<Rightarrow> 'v \<Rightarrow> 'v \<Rightarrow> ('g, 'v) state \<Rightarrow>
   error option \<times> ('g, 'v) state" where
  "normal_fill_vectorize E T mean std \<sigma> =
     (let size' = numel \<sigma>;
          \<sigma>1 = uniform_loop E T 0 [0..<size'] \<sigma>;
          two_pi_v = static_cast E kDouble kFloat (two_pi E);
          one = from_int64 E kFloat 1;
          minus_two = from_int64 E kFloat (- 2);
          block = (\<lambda>i. if Vec_size E = 8
                        then normal_fill_16_vectorize E i two_pi_v one minus_two mean std
                        else normal_fill_16 E T i mean std);
          \<sigma>2 = block_loop block 0 size' \<sigma>1
      in if size' mod 16 \<noteq> 0 then
           (if size' < 16 then (Some OutOfBounds, \<sigma>2)
            else (None, block (size' - 16) (uniform_loop E T (size' - 16) [0..<16] \<sigma>2)))
         else (None, \<sigma>2))"

definition normal_kernel ::
  "('g, 'v) collaborators \<Rightarrow> 'v \<Rightarrow> 'v \<Rightarrow> ('g, 'v) state \<Rightarrow> error option \<times> ('g, 'v) state" where
  "normal_kernel E mean std \<sigma> =
     (let size' = numel \<sigma> in
      if dtype \<sigma> = kFloat \<and> 16 \<le> size' \<and> is_contiguous (self \<sigma>) then
        normal_fill_vectorize E kFloat (static_cast E kDouble kFloat mean)
          (static_cast E kDouble kFloat std) \<sigma>
      else
        AT_DISPATCH (AT_DISPATCH_FLOATING_TYPES_AND2 kHalf kBFloat16) (dtype \<sigma>) ''normal_kernel_cpu''
          (\<lambda>scalar_t \<sigma>.
             if 16 \<le> size' \<and> is_contiguous (self \<sigma>) then
               normal_fill E scalar_t (static_cast E kDouble scalar_t mean)
                 (static_cast E kDouble scalar_t std) \<sigma>
             else
               cpu_serial_kernel
                 (sample_as E (normal_distribution kDouble mean std) (static_cast E kDouble scalar_t))
                 \<sigma>)
          \<sigma>)"

subsection \<open>Uniform, Cauchy, LogNormal, Geometric\<close>

definition uniform_kernel ::
  "('g, 'v) collaborators \<Rightarrow> 'v \<Rightarrow> 'v \<Rightarrow> ('g, 'v) state \<Rightarrow> error option \<times> ('g, 'v) state" where
  "uniform_kernel E from' to' \<sigma> =
     AT_DISPATCH (AT_DISPATCH_FLOATING_TYPES_AND2 kHalf kBFloat16) (dtype \<sigma>) ''uniform_kernel_cpu''
       (\<lambda>scalar_t.
          let from = static_cast E kDouble scalar_t from';
              to = static_cast E kDouble scalar_t to'
          in cpu_serial_kernel
               (sample_as E (uniform_real_distribution scalar_t from to)
                  (static_cast E scalar_t scalar_t)))
       \<sigma>"

definition cauchy_kernel ::
  "('g, 'v) collaborators \<Rightarrow> 'v \<Rightarrow> 'v \<Rightarrow> ('g, 'v) state \<Rightarrow> error option \<times> ('g, 'v) state" where
  "cauchy_kernel E median sigma \<sigma> =
     AT_DISPATCH (AT_DISPATCH_FLOATING_TYPES_AND2 kHalf kBFloat16) (dtype \<sigma>) ''cauchy_cpu''
       (\<lambda>scalar_t. cpu_serial_kernel
          (sample_as E (cauchy_distribution kDouble median sigma) (static_cast E kDouble scalar_t)))
       \<sigma>"

definition log_normal_kernel ::
  "('g, 'v) collaborators \<Rightarrow> 'v \<Rightarrow> 'v \<Rightarrow> ('g, 'v) state \<Rightarrow> error option \<times> ('g, 'v) state" where
  "log_normal_kernel E mean std \<sigma> =
     AT_DISPATCH (AT_DISPATCH_FLOATING_TYPES_AND2 kHalf kBFloat16) (dtype \<sigma>) ''log_normal_cpu''
       (\<lambda>scalar_t. cpu_serial_kernel
          (sample_as E (lognormal_distribution kDouble mean std) (static_cast E kDouble scalar_t)))
       \<sigma>"

definition geometric_kernel ::
  "('g, 'v) collaborators \<Rightarrow> 'v \<Rightarrow> ('g, 'v) state \<Rightarrow> error option \<times> ('g, 'v) state" where
  "geometric_kernel E p \<sigma> =
     AT_DISPATCH (AT_DISPATCH_ALL_TYPES_AND2 kHalf kBFloat16) (dtype \<sigma>) ''geometric_cpu''
       (\<lambda>scalar_t. cpu_serial_kernel
          (sample_as E (geometric_distribution kDouble p) (static_cast E kDouble scalar_t)))
       \<sigma>"

subsection \<open>Bernoulli\<close>

text \<open>
  The two overloads of \<open>bernoulli_kernel\<close>: a probability tensor, a scalar probability.
  The iterator is built over the output and the expanded probabilities, which must have
  the output's element count.
\<close>

definition bernoulli_kernel_tensor ::
  "('g, 'v) collaborators \<Rightarrow> 'v tensor \<Rightarrow> ('g, 'v) state \<Rightarrow> error option \<times> ('g, 'v) state" where
  "bernoulli_kernel_tensor E p' \<sigma> =
     AT_DISPATCH (AT_DISPATCH_ALL_TYPES_AND3 kBool kBFloat16 kHalf) (dtype \<sigma>)
       ''bernoulli_tensor_cpu_self_''
       (\<lambda>self_t \<sigma>.
          case expand_inplace E (numel \<sigma>) p' of
            None \<Rightarrow> (Some ExpandFailed, \<sigma>)
          | Some p \<Rightarrow>
              if length (data p) \<noteq> numel \<sigma> then (Some ExpandFailed, \<sigma>)
              else if scalar_type p = kDouble then
                cpu_serial_kernel_unary
                  (\<lambda>p_val. sample_as E (bernoulli_distribution kDouble p_val)
                              (static_cast E kDouble self_t))
                  (data p) \<sigma>
              else
                AT_DISPATCH (AT_DISPATCH_FLOATING_TYPES_AND2 kBFloat16 kHalf) (scalar_type p)
                  ''bernoulli_tensor_cpu_p_''
                  (\<lambda>p_t. cpu_serial_kernel_unary
                     (\<lambda>p_val. sample_as E (bernoulli_distribution kFloat (static_cast E p_t kFloat p_val))
                                 (static_cast E kFloat self_t))
                     (data p))
                  \<sigma>)
       \<sigma>"


subsection \<open>Entry points\<close>




subsection \<open>An instance of the collaborators\<close>

text \<open>
  For evaluating the kernels on concrete inputs: the generator is a counter, every draw
  returns the count and increments it, values are integers, conversions keep the value,
  the vector unit has eight lanes.
\<close>

definition counting :: "(nat, int) collaborators" where
  "counting =
     \<lparr>rng_random = (\<lambda>g. (of_nat g, Suc g)),
      rng_random64 = (\<lambda>g. (of_nat g, Suc g)),
      sample = (\<lambda>d g. (int g, Suc g)),
      from_int64 = (\<lambda>T w. sint w),
      static_cast = (\<lambda>S T v. v),
      two_pi = 6,
      fadd = (\<lambda>T a b. a + b),
      fsub = (\<lambda>T a b. a - b),
      fmul = (\<lambda>T a b. a * b),
      flog = (\<lambda>T a. a),
      fsqrt = (\<lambda>T a. a),
      fcos = (\<lambda>T a. a),
      fsin = (\<lambda>T a. a),
      Vec_size = 8,
      vadd = (\<lambda>a b. a + b),
      vsub = (\<lambda>a b. a - b),
      vmul = (\<lambda>a b. a * b),
      vlog = (\<lambda>a. a),
      vsqrt = (\<lambda>a. a),
      vcos = (\<lambda>a. a),
      vsin = (\<lambda>a. a),
      expand_inplace = (\<lambda>n p. if length (data p) = n then Some p else None)\<rparr>"

definition tensor_of :: "ScalarType \<Rightarrow> int list \<Rightarrow> int tensor" where
  "tensor_of t xs = \<lparr>scalar_type = t, is_contiguous = True, data = xs\<rparr>"

definition state_of :: "ScalarType \<Rightarrow> int list \<Rightarrow> nat \<Rightarrow> (nat, int) state" where
  "state_of t xs g = \<lparr>self = tensor_of t xs, generator = g, events = []\<rparr>"

text \<open>
  Modelled from the spec: the conversion of an integer to \<open>half\<close>, one of the spec's
  reduced-precision floating formats (\<open>c10/util/Half.h\<close> is not among the sources). The
  format is IEEE binary16: 11 significant bits, rounding to nearest, ties to even;
  magnitudes beyond its largest finite number are not modelled.
  \<open>rounding\<close> is the instance \<open>counting\<close> with this conversion for \<open>half\<close> outputs.
\<close>

fun half_ulp :: "nat \<Rightarrow> nat" where
  "half_ulp a = (if a < 2048 then 1 else 2 * half_ulp (a div 2))"

declare half_ulp.simps [simp del]

definition round_half_even :: "nat \<Rightarrow> nat \<Rightarrow> nat" where
  "round_half_even a s =
     (let q = a div s; r = a mod s
      in if s < 2 * r \<or> (2 * r = s \<and> odd q) then (q + 1) * s else q * s)"

definition half_of_int :: "int \<Rightarrow> int" where
  "half_of_int x = sgn x * int (round_half_even (nat \<bar>x\<bar>) (half_ulp (nat \<bar>x\<bar>)))"

definition rounding :: "(nat, int) collaborators" where
  "rounding = counting\<lparr>from_int64 := \<lambda>T w. if T = kHalf then half_of_int (sint w) else sint w\<rparr>"

subsection \<open>What a loop of samples computes\<close>

text \<open>
  The values a sequence of distribution objects returns when called in order on the
  generator, the generator left behind, and the effects of a per-element loop that calls
  one distribution per position and stores the result there.
\<close>

primrec draws :: "('g, 'v) collaborators \<Rightarrow> 'v distribution list \<Rightarrow> 'g \<Rightarrow> 'v list" where
  "draws E [] g = []"
| "draws E (d # ds) g = (case sample E d g of (v, g') \<Rightarrow> v # draws E ds g')"

primrec after_draws :: "('g, 'v) collaborators \<Rightarrow> 'v distribution list \<Rightarrow> 'g \<Rightarrow> 'g" where
  "after_draws E [] g = g"
| "after_draws E (d # ds) g = after_draws E ds (snd (sample E d g))"

definition sample_events :: "('a \<Rightarrow> 'v distribution) \<Rightarrow> (nat \<times> 'a) list \<Rightarrow> 'v event list" where
  "sample_events d ps = concat (map (\<lambda>ia. [Draw (d (snd ia)), Write (fst ia)]) ps)"

text \<open>
  The number of calls of a distribution among a sequence of effects, and what it is for a
  kernel to fill the output from one distribution: the call succeeds, it performs one
  draw and one store per position, in order, and each element is the narrowed draw.
  \<open>fills_from\<close> is the same with one distribution per position, built from an input.
\<close>

definition draw_count :: "'v event list \<Rightarrow> nat" where
  "draw_count evs = length (filter (\<lambda>e. case e of Draw d \<Rightarrow> True | Write i \<Rightarrow> False) evs)"

definition fills_with ::
  "('g, 'v) collaborators \<Rightarrow> 'v distribution \<Rightarrow> ('v \<Rightarrow> 'v) \<Rightarrow> ('g, 'v) state \<Rightarrow>
   error option \<times> ('g, 'v) state \<Rightarrow> bool" where
  "fills_with E d conv \<sigma> res =
     (fst res = None \<and>
      events (snd res) = events \<sigma> @ concat (map (\<lambda>i. [Draw d, Write i]) [0..<numel \<sigma>]) \<and>
      generator (snd res) = after_draws E (replicate (numel \<sigma>) d) (generator \<sigma>) \<and>
      data (self (snd res)) = map conv (draws E (replicate (numel \<sigma>) d) (generator \<sigma>)))"

definition fills_from ::
  "('g, 'v) collaborators \<Rightarrow> ('v \<Rightarrow> 'v distribution) \<Rightarrow> ('v \<Rightarrow> 'v) \<Rightarrow> 'v list \<Rightarrow>
   ('g, 'v) state \<Rightarrow> error option \<times> ('g, 'v) state \<Rightarrow> bool" where
  "fills_from E d conv inputs \<sigma> res =
     (fst res = None \<and>
      events (snd res) = events \<sigma> @ sample_events d (zip [0..<numel \<sigma>] inputs) \<and>
      generator (snd res) = after_draws E (map d inputs) (generator \<sigma>) \<and>
      data (self (snd res)) = map conv (draws E (map d inputs) (generator \<sigma>)))"

text \<open>
  The contract of a bounded integer draw on the element type, for a reading \<open>val\<close> of the
  elements as integers: \<open>base\<close> and \<open>base + range - 1\<close> are converted to the element
  type exactly, and conversion keeps the order of the values of the interval (ordered by
  their unsigned offset from \<open>base\<close>).
\<close>

definition conversion_contract ::
  "('g, 'v) collaborators \<Rightarrow> ('v \<Rightarrow> int) \<Rightarrow> ScalarType \<Rightarrow> 64 word \<Rightarrow> 64 word \<Rightarrow> bool" where
  "conversion_contract E val T range' base' =
     (val (from_int64 E T base') = sint base' \<and>
      val (from_int64 E T (base' + range' - 1)) = sint base' + uint range' - 1 \<and>
      (\<forall>w w'. w - base' \<le> w' - base' \<and> w' - base' < range' \<longrightarrow>
         val (from_int64 E T w) \<le> val (from_int64 E T w')))"

subsection \<open>The effects of a bulk normal fill\<close>

text \<open>
  The effects a call has added to the state, and the positions a sequence of effects
  writes.
\<close>

definition new_events :: "('g, 'v) state \<Rightarrow> error option \<times> ('g, 'v) state \<Rightarrow> 'v event list" where
  "new_events \<sigma> res = drop (length (events \<sigma>)) (events (snd res))"

definition written :: "'v event list \<Rightarrow> nat set" where
  "written evs = set (concat (map (\<lambda>e. case e of Write i \<Rightarrow> [i] | Draw d \<Rightarrow> []) evs))"

text \<open>
  The bulk normal fill as the spec describes it. \<open>uniform01\<close> is the distribution
  \<open>uniform(0, 1)\<close> of the two paths; \<open>uniform_events u off n\<close> draws \<open>n\<close> uniforms, the
  \<open>i\<close>-th stored at \<open>off + i\<close>; \<open>fill16_events off\<close> are the sixteen stores of the scalar
  Box-Muller block at \<open>off\<close>, \<open>fill16_vec_events\<close> those of the vectorized block, and
  \<open>vec_block_events\<close> those of the block the vectorized path runs. \<open>bulk_events\<close>: a
  first pass of \<open>n\<close> uniforms over the whole buffer, the complete blocks of 16 in order,
  and, when \<open>n\<close> is not a multiple of 16, sixteen fresh uniforms into the last 16 positions
  and one more block there. \<open>rewritten\<close> are the positions written by that last block
  and by an earlier block; \<open>tail_draws\<close> is the number of draws after the first pass.
\<close>

definition uniform01 :: "('g, 'v) collaborators \<Rightarrow> ScalarType \<Rightarrow> 'v distribution" where
  "uniform01 E T = uniform_real_distribution T (from_int64 E T 0) (from_int64 E T 1)"

definition uniform_events :: "'v distribution \<Rightarrow> nat \<Rightarrow> nat \<Rightarrow> 'v event list" where
  "uniform_events u off n = concat (map (\<lambda>i. [Draw u, Write (off + i)]) [0..<n])"

definition fill16_events :: "nat \<Rightarrow> 'v event list" where
  "fill16_events off = concat (map (\<lambda>j. [Write (off + j), Write (off + j + 8)]) [0..<8])"

definition fill16_vec_events :: "nat \<Rightarrow> nat \<Rightarrow> 'v event list" where
  "fill16_vec_events n off =
     map (\<lambda>k. Write (off + k)) [0..<n] @ map (\<lambda>k. Write (off + n + k)) [0..<n]"

definition vec_block_events :: "('g, 'v) collaborators \<Rightarrow> nat \<Rightarrow> 'v event list" where
  "vec_block_events E off = (if Vec_size E = 8 then fill16_vec_events 8 off else fill16_events off)"

definition bulk_events ::
  "'v distribution \<Rightarrow> (nat \<Rightarrow> 'v event list) \<Rightarrow> nat \<Rightarrow> 'v event list" where
  "bulk_events u block_events n =
     uniform_events u 0 n @ concat (map (\<lambda>k. block_events (16 * k)) [0..<n div 16]) @
     (if n mod 16 \<noteq> 0 then uniform_events u (n - 16) 16 @ block_events (n - 16) else [])"

definition rewritten :: "(nat \<Rightarrow> 'v event list) \<Rightarrow> nat \<Rightarrow> nat set" where
  "rewritten block_events n =
     written (block_events (n - 16)) \<inter>
     written (concat (map (\<lambda>k. block_events (16 * k)) [0..<n div 16]))"

definition tail_draws :: "nat \<Rightarrow> nat" where
  "tail_draws n = (if n mod 16 \<noteq> 0 then 16 else 0)"

text \<open>A step that leaves the generator, the element count and the tensor's type and layout.\<close>

definition frame :: "('g, 'v) state \<Rightarrow> ('g, 'v) state \<Rightarrow> bool" where
  "frame \<sigma> \<sigma>' =
     (generator \<sigma>' = generator \<sigma> \<and> numel \<sigma>' = numel \<sigma> \<and>
      scalar_type (self \<sigma>') = scalar_type (self \<sigma>) \<and>
      is_contiguous (self \<sigma>') = is_contiguous (self \<sigma>))"

subsection \<open>The data of a bulk normal fill\<close>

text \<open>
  The Box-Muller transform as the spec gives it, for a pair \<open>a = buf[j]\<close>,
  \<open>b = buf[j+8]\<close>: \<open>radius = sqrt(-2 * ln(1 - a))\<close>, \<open>theta = 2 * pi * b\<close>, and the two
  results \<open>radius * cos(theta) * std + mean\<close> and \<open>radius * sin(theta) * std + mean\<close>;
  in the arithmetic of the element type, and in that of one vector lane. \<open>box_muller_16\<close>
  transforms a block of 16 values: the first eight results are the cosine halves of the
  pairs \<open>(j, j + 8)\<close>, the last eight the sine halves. \<open>scalar_block\<close> and
  \<open>vector_block\<close> are the transforms of a block by the scalar and by the vectorized path
  (which uses the scalar block when the vector unit does not have eight lanes).
\<close>

definition box_muller_radius :: "('g, 'v) collaborators \<Rightarrow> ScalarType \<Rightarrow> 'v \<Rightarrow> 'v" where
  "box_muller_radius E T a =
     fsqrt E T (fmul E T (from_int64 E T (- 2)) (flog E T (fsub E T (from_int64 E T 1) a)))"

definition box_muller_theta :: "('g, 'v) collaborators \<Rightarrow> ScalarType \<Rightarrow> 'v \<Rightarrow> 'v" where
  "box_muller_theta E T b =
     static_cast E kDouble T (fmul E kDouble (two_pi E) (static_cast E T kDouble b))"

definition box_muller_cos :: "('g, 'v) collaborators \<Rightarrow> ScalarType \<Rightarrow> 'v \<Rightarrow> 'v \<Rightarrow> 'v \<Rightarrow> 'v \<Rightarrow> 'v" where
  "box_muller_cos E T mean std a b =
     fadd E T (fmul E T (fmul E T (box_muller_radius E T a) (fcos E T (box_muller_theta E T b))) std) mean"

definition box_muller_sin :: "('g, 'v) collaborators \<Rightarrow> ScalarType \<Rightarrow> 'v \<Rightarrow> 'v \<Rightarrow> 'v \<Rightarrow> 'v \<Rightarrow> 'v" where
  "box_muller_sin E T mean std a b =
     fadd E T (fmul E T (fmul E T (box_muller_radius E T a) (fsin E T (box_muller_theta E T b))) std) mean"

definition box_muller_16 :: "('v \<Rightarrow> 'v \<Rightarrow> 'v) \<Rightarrow> ('v \<Rightarrow> 'v \<Rightarrow> 'v) \<Rightarrow> 'v list \<Rightarrow> 'v list" where
  "box_muller_16 c s xs =
     map (\<lambda>j. c (xs ! j) (xs ! (j + 8))) [0..<8] @ map (\<lambda>j. s (xs ! j) (xs ! (j + 8))) [0..<8]"

definition vec_box_muller_cos ::
  "('g, 'v) collaborators \<Rightarrow> 'v \<Rightarrow> 'v \<Rightarrow> 'v \<Rightarrow> 'v \<Rightarrow> 'v \<Rightarrow> 'v \<Rightarrow> 'v \<Rightarrow> 'v" where
  "vec_box_muller_cos E two_pi_v one minus_two mean std a b =
     vadd E (vmul E (vmul E (vsqrt E (vmul E minus_two (vlog E (vsub E one a))))
                       (vcos E (vmul E two_pi_v b))) std) mean"

definition vec_box_muller_sin ::
  "('g, 'v) collaborators \<Rightarrow> 'v \<Rightarrow> 'v \<Rightarrow> 'v \<Rightarrow> 'v \<Rightarrow> 'v \<Rightarrow> 'v \<Rightarrow> 'v \<Rightarrow> 'v" where
  "vec_box_muller_sin E two_pi_v one minus_two mean std a b =
     vadd E (vmul E (vmul E (vsqrt E (vmul E minus_two (vlog E (vsub E one a))))
                       (vsin E (vmul E two_pi_v b))) std) mean"

definition scalar_block :: "('g, 'v) collaborators \<Rightarrow> ScalarType \<Rightarrow> 'v \<Rightarrow> 'v \<Rightarrow> 'v list \<Rightarrow> 'v list" where
  "scalar_block E T mean std =
     box_muller_16 (box_muller_cos E T mean std) (box_muller_sin E T mean std)"

definition vector_block :: "('g, 'v) collaborators \<Rightarrow> ScalarType \<Rightarrow> 'v \<Rightarrow> 'v \<Rightarrow> 'v list \<Rightarrow> 'v list" where
  "vector_block E T mean std =
     (if Vec_size E = 8
      then box_muller_16
             (vec_box_muller_cos E (static_cast E kDouble kFloat (two_pi E)) (from_int64 E kFloat 1)
                (from_int64 E kFloat (- 2)) mean std)
             (vec_box_muller_sin E (static_cast E kDouble kFloat (two_pi E)) (from_int64 E kFloat 1)
                (from_int64 E kFloat (- 2)) mean std)
      else scalar_block E T mean std)"

text \<open>
  \<open>first_pass\<close> are the uniforms of the first pass, one per element, and \<open>tail_pass\<close>
  the sixteen uniforms drawn after them. \<open>blocks_data\<close> is the buffer after the complete
  blocks of 16 of the first pass have been transformed (the elements past the last complete
  block still hold their uniform); \<open>bulk_data\<close> is the output of the fill: when the size
  is not a multiple of 16 the last 16 positions hold the transform of the tail pass, every
  other position holds the transform of its complete block.
\<close>

definition blocks_data :: "('v list \<Rightarrow> 'v list) \<Rightarrow> nat \<Rightarrow> 'v list \<Rightarrow> 'v list" where
  "blocks_data blk n us =
     map (\<lambda>i. if i < 16 * (n div 16) then blk (take 16 (drop (16 * (i div 16)) us)) ! (i mod 16)
              else us ! i)
       [0..<n]"

definition first_pass :: "('g, 'v) collaborators \<Rightarrow> ScalarType \<Rightarrow> ('g, 'v) state \<Rightarrow> 'v list" where
  "first_pass E T \<sigma> = draws E (replicate (numel \<sigma>) (uniform01 E T)) (generator \<sigma>)"

definition tail_pass :: "('g, 'v) collaborators \<Rightarrow> ScalarType \<Rightarrow> ('g, 'v) state \<Rightarrow> 'v list" where
  "tail_pass E T \<sigma> =
     draws E (replicate 16 (uniform01 E T))
       (after_draws E (replicate (numel \<sigma>) (uniform01 E T)) (generator \<sigma>))"

definition bulk_data :: "('v list \<Rightarrow> 'v list) \<Rightarrow> nat \<Rightarrow> 'v list \<Rightarrow> 'v list \<Rightarrow> 'v list" where
  "bulk_data blk n us ts =
     map (\<lambda>i. if n mod 16 \<noteq> 0 \<and> n - 16 \<le> i then blk ts ! (i - (n - 16))
              else blk (take 16 (drop (16 * (i div 16)) us)) ! (i mod 16))
       [0..<n]"

text \<open>A block function acts as a transform of 16 values on the 16 positions from its offset.\<close>

definition acts ::
  "(nat \<Rightarrow> ('g, 'v) state \<Rightarrow> ('g, 'v) state) \<Rightarrow> ('v list \<Rightarrow> 'v list) \<Rightarrow> bool" where
  "acts block blk =
     (\<forall>off \<sigma>. off + 16 \<le> numel \<sigma> \<longrightarrow>
        numel (block off \<sigma>) = numel \<sigma> \<and>
        (\<forall>i < numel \<sigma>. data (self (block off \<sigma>)) ! i =
           (if off \<le> i \<and> i < off + 16 then blk (take 16 (drop off (data (self \<sigma>)))) ! (i - off)
            else data (self \<sigma>) ! i)))"

subsection \<open>Two calls on outputs of the same shape\<close>

text \<open>
  Two states of the same shape: the same generator state, the same effects so far, outputs
  of the same element type, layout and element count (the elements may differ). Two
  outcomes are the same when both calls return the same status and leave states of the same
  shape, with the same elements when they succeed. A per-element function is oblivious
  when its result and what it does to the generator do not depend on the output, which it
  leaves as it is.
\<close>

definition same_shape :: "('g, 'v) state \<Rightarrow> ('g, 'v) state \<Rightarrow> bool" where
  "same_shape \<sigma>1 \<sigma>2 =
     (generator \<sigma>1 = generator \<sigma>2 \<and> events \<sigma>1 = events \<sigma>2 \<and>
      scalar_type (self \<sigma>1) = scalar_type (self \<sigma>2) \<and>
      is_contiguous (self \<sigma>1) = is_contiguous (self \<sigma>2) \<and>
      length (data (self \<sigma>1)) = length (data (self \<sigma>2)))"

definition same_outcome ::
  "error option \<times> ('g, 'v) state \<Rightarrow> error option \<times> ('g, 'v) state \<Rightarrow> bool" where
  "same_outcome r1 r2 =
     (fst r1 = fst r2 \<and> same_shape (snd r1) (snd r2) \<and>
      (if fst r1 = None then data (self (snd r1)) = data (self (snd r2)) else True))"


section \<open>Properties\<close>

subsection \<open>The per-element loop\<close>

lemma length_draws [simp]: "length (draws E ds g) = length ds"
  by (induction ds arbitrary: g) (auto split: prod.splits)

lemma store_simps [simp]:
  "generator (store i v \<sigma>) = generator \<sigma>"
  "events (store i v \<sigma>) = events \<sigma> @ [Write i]"
  "data (self (store i v \<sigma>)) = (data (self \<sigma>))[i := v]"
  "scalar_type (self (store i v \<sigma>)) = scalar_type (self \<sigma>)"
  "is_contiguous (self (store i v \<sigma>)) = is_contiguous (self \<sigma>)"
  "numel (store i v \<sigma>) = numel \<sigma>"
  "dtype (store i v \<sigma>) = dtype \<sigma>"
  by (simp_all add: store_def numel_def dtype_def)

lemma draw_simps [simp]:
  "fst (draw E d \<sigma>) = fst (sample E d (generator \<sigma>))"
  "generator (snd (draw E d \<sigma>)) = snd (sample E d (generator \<sigma>))"
  "events (snd (draw E d \<sigma>)) = events \<sigma> @ [Draw d]"
  "self (snd (draw E d \<sigma>)) = self \<sigma>"
  "numel (snd (draw E d \<sigma>)) = numel \<sigma>"
  "dtype (snd (draw E d \<sigma>)) = dtype \<sigma>"
  by (simp_all add: draw_def numel_def dtype_def split: prod.splits)

lemma sample_as_simps [simp]:
  "fst (sample_as E d c \<sigma>) = Inr (c (fst (sample E d (generator \<sigma>))))"
  "snd (sample_as E d c \<sigma>) = snd (draw E d \<sigma>)"
  by (simp_all add: sample_as_def draw_def split: prod.splits)

lemma serial_loop_sample_as:
  "serial_loop (\<lambda>a. sample_as E (d a) (c a)) ps \<sigma> = (r, \<sigma>') \<Longrightarrow>
   r = None \<and>
   events \<sigma>' = events \<sigma> @ sample_events d ps \<and>
   generator \<sigma>' = after_draws E (map (d \<circ> snd) ps) (generator \<sigma>) \<and>
   scalar_type (self \<sigma>') = scalar_type (self \<sigma>) \<and>
   is_contiguous (self \<sigma>') = is_contiguous (self \<sigma>) \<and>
   length (data (self \<sigma>')) = length (data (self \<sigma>))"
proof (induction ps arbitrary: \<sigma>)
  case Nil
  then show ?case by (simp add: sample_events_def)
next
  case (Cons ia ps)
  obtain x \<sigma>1 where f: "sample_as E (d (snd ia)) (c (snd ia)) \<sigma> = (Inr x, \<sigma>1)"
    by (metis sample_as_simps(1) prod.collapse)
  have s1: "\<sigma>1 = snd (draw E (d (snd ia)) \<sigma>)"
    using f sample_as_simps(2) [of E "d (snd ia)" "c (snd ia)" \<sigma>] by simp
  from Cons.prems f have "serial_loop (\<lambda>a. sample_as E (d a) (c a)) ps (store (fst ia) x \<sigma>1) = (r, \<sigma>')"
    by simp
  from Cons.IH [OF this] show ?case
    by (simp add: s1 sample_events_def)
qed

lemma zip_upt_Cons:
  "zip [k..<Suc (k + n)] (a # as) = (k, a) # zip [Suc k..<Suc (k + n)] as"
  by (simp add: upt_conv_Cons)

lemma serial_loop_data:
  "k + length as \<le> length (data (self \<sigma>)) \<Longrightarrow>
   data (self (snd (serial_loop (\<lambda>a. sample_as E (d a) (c a)) (zip [k..<k + length as] as) \<sigma>))) =
     take k (data (self \<sigma>)) @ map2 c as (draws E (map d as) (generator \<sigma>)) @
     drop (k + length as) (data (self \<sigma>))"
proof (induction as arbitrary: k \<sigma>)
  case Nil
  then show ?case by simp
next
  case (Cons a as)
  let ?v = "fst (sample E (d a) (generator \<sigma>))"
  let ?\<sigma>1 = "store k (c a ?v) (snd (draw E (d a) \<sigma>))"
  have f: "sample_as E (d a) (c a) \<sigma> = (Inr (c a ?v), snd (draw E (d a) \<sigma>))"
    by (simp add: prod_eq_iff)
  have k: "k < length (data (self \<sigma>))"
    using Cons.prems by simp
  have len: "Suc k + length as \<le> length (data (self ?\<sigma>1))"
    using Cons.prems by simp
  have "data (self (snd (serial_loop (\<lambda>a. sample_as E (d a) (c a))
            (zip [k..<k + length (a # as)] (a # as)) \<sigma>))) =
        data (self (snd (serial_loop (\<lambda>a. sample_as E (d a) (c a))
            (zip [Suc k..<Suc k + length as] as) ?\<sigma>1)))"
    using f by (simp add: zip_upt_Cons del: upt_Suc)
  also have "\<dots> = take (Suc k) (data (self ?\<sigma>1)) @
        map2 c as (draws E (map d as) (generator ?\<sigma>1)) @
        drop (Suc k + length as) (data (self ?\<sigma>1))"
    by (rule Cons.IH [OF len])
  also have "\<dots> = take k (data (self \<sigma>)) @ map2 c (a # as) (draws E (map d (a # as)) (generator \<sigma>)) @
        drop (k + length (a # as)) (data (self \<sigma>))"
    using k by (simp add: take_Suc_conv_app_nth split: prod.splits)
  finally show ?case .
qed

lemma cpu_serial_kernel_sample_as:
  "cpu_serial_kernel (sample_as E d c) \<sigma> = (r, \<sigma>') \<Longrightarrow>
   r = None \<and>
   events \<sigma>' = events \<sigma> @ concat (map (\<lambda>i. [Draw d, Write i]) [0..<numel \<sigma>]) \<and>
   generator \<sigma>' = after_draws E (replicate (numel \<sigma>) d) (generator \<sigma>) \<and>
   scalar_type (self \<sigma>') = scalar_type (self \<sigma>) \<and>
   is_contiguous (self \<sigma>') = is_contiguous (self \<sigma>) \<and>
   data (self \<sigma>') = map c (draws E (replicate (numel \<sigma>) d) (generator \<sigma>))"
proof -
  assume a: "cpu_serial_kernel (sample_as E d c) \<sigma> = (r, \<sigma>')"
  let ?ps = "map (\<lambda>i. (i, ())) [0..<numel \<sigma>]"
  have ps: "?ps = zip [0..<0 + length (replicate (numel \<sigma>) ())] (replicate (numel \<sigma>) ())"
    by (simp add: list_eq_iff_nth_eq)
  from a have l: "serial_loop (\<lambda>u. sample_as E ((\<lambda>u. d) u) ((\<lambda>u. c) u)) ?ps \<sigma> = (r, \<sigma>')"
    by (simp add: cpu_serial_kernel_def)
  note A = serial_loop_sample_as [OF l]
  have m: "map ((\<lambda>u. d) \<circ> snd) ?ps = replicate (numel \<sigma>) d"
    by (simp add: list_eq_iff_nth_eq)
  have "data (self \<sigma>') = data (self (snd (serial_loop (\<lambda>u. sample_as E ((\<lambda>u. d) u) ((\<lambda>u. c) u))
           (zip [0..<0 + length (replicate (numel \<sigma>) ())] (replicate (numel \<sigma>) ())) \<sigma>)))"
    using l ps by simp
  also have "\<dots> = take 0 (data (self \<sigma>)) @
        map2 (\<lambda>u. c) (replicate (numel \<sigma>) ()) (draws E (map (\<lambda>u. d) (replicate (numel \<sigma>) ())) (generator \<sigma>)) @
        drop (0 + length (replicate (numel \<sigma>) ())) (data (self \<sigma>))"
    by (rule serial_loop_data) (simp add: numel_def)
  also have "\<dots> = map c (draws E (replicate (numel \<sigma>) d) (generator \<sigma>))"
    by (simp add: numel_def list_eq_iff_nth_eq)
  finally have D: "data (self \<sigma>') = map c (draws E (replicate (numel \<sigma>) d) (generator \<sigma>))" .
  have ev: "sample_events (\<lambda>u. d) ?ps = concat (map (\<lambda>i. [Draw d, Write i]) [0..<numel \<sigma>])"
    by (simp add: sample_events_def comp_def)
  show ?thesis using A D m ev by simp
qed

lemmas cpu_serial_kernel_sample_as' = cpu_serial_kernel_sample_as [OF prod.collapse [symmetric]]

lemmas dispatch_sets =
  AT_DISPATCH_ALL_TYPES_def AT_DISPATCH_FLOATING_TYPES_def AT_DISPATCH_ALL_TYPES_AND_def
  AT_DISPATCH_ALL_TYPES_AND2_def AT_DISPATCH_ALL_TYPES_AND3_def
  AT_DISPATCH_FLOATING_TYPES_AND2_def

lemma draw_count_append [simp]: "draw_count (xs @ ys) = draw_count xs + draw_count ys"
  by (simp add: draw_count_def)

lemma draw_count_sample_events [simp]: "draw_count (sample_events d ps) = length ps"
  by (induction ps) (simp_all add: sample_events_def draw_count_def)

lemma cpu_serial_kernel_fills_with:
  "fills_with E d c \<sigma> (cpu_serial_kernel (sample_as E d c) \<sigma>)"
  by (simp add: fills_with_def cpu_serial_kernel_sample_as')

lemma cpu_serial_kernel_unary_fills_from:
  assumes "length inputs = numel \<sigma>"
  shows "fills_from E d c inputs \<sigma>
           (cpu_serial_kernel_unary (\<lambda>p_val. sample_as E (d p_val) c) inputs \<sigma>)"
proof -
  let ?res = "cpu_serial_kernel_unary (\<lambda>p_val. sample_as E (d p_val) c) inputs \<sigma>"
  have l: "serial_loop (\<lambda>a. sample_as E (d a) ((\<lambda>a. c) a)) (zip [0..<numel \<sigma>] inputs) \<sigma> =
           (fst ?res, snd ?res)"
    by (simp add: cpu_serial_kernel_unary_def)
  note A = serial_loop_sample_as [OF l]
  have m: "map (d \<circ> snd) (zip [0..<numel \<sigma>] inputs) = map d inputs"
    using assms by (simp add: list_eq_iff_nth_eq)
  have "data (self (snd ?res)) =
        data (self (snd (serial_loop (\<lambda>a. sample_as E (d a) ((\<lambda>a. c) a))
           (zip [0..<0 + length inputs] inputs) \<sigma>)))"
    using assms by (simp add: cpu_serial_kernel_unary_def)
  also have "\<dots> = take 0 (data (self \<sigma>)) @ map2 (\<lambda>a. c) inputs (draws E (map d inputs) (generator \<sigma>)) @
        drop (0 + length inputs) (data (self \<sigma>))"
    by (rule serial_loop_data) (use assms in \<open>simp add: numel_def\<close>)
  also have "\<dots> = map c (draws E (map d inputs) (generator \<sigma>))"
    using assms by (simp add: numel_def list_eq_iff_nth_eq)
  finally show ?thesis
    using A m by (simp add: fills_from_def)
qed

lemma counting_sample [simp]: "sample counting d g = (int g, Suc g)"
  by (simp add: counting_def)

lemma counting_static_cast [simp]: "static_cast counting S T v = v"
  by (simp add: counting_def)

subsection \<open>Exponential rejects non-floating outputs\<close>

text \<open>
  C3. Calling the exponential kernel with an output whose element type is not floating-point
  fails with the type-domain error of its check, before the generator is used and before
  any element is written: the whole state (output array, generator, effects) is unchanged.
\<close>

theorem exponential_kernel_rejects_non_floating:
  "\<not> isFloatingType (dtype \<sigma>) \<Longrightarrow>
   exponential_kernel E lambda \<sigma> =
     (Some (CheckFailed ''Exponential distribution is a continuous probability distribution. dtype must be a floating point but you specified ''), \<sigma>)"
  by (simp add: exponential_kernel_def)

theorem exponential_kernel_rejects_non_floating_witness:
  "\<not> isFloatingType (dtype (state_of kInt [7, 8, 9] 0)) \<and>
   exponential_kernel counting 2 (state_of kInt [7, 8, 9] 0) =
     (Some (CheckFailed ''Exponential distribution is a continuous probability distribution. dtype must be a floating point but you specified ''),
      state_of kInt [7, 8, 9] 0)"
proof -
  have h: "\<not> isFloatingType (dtype (state_of kInt [7, 8, 9] 0))"
    by (simp add: isFloatingType_def dtype_def state_of_def tensor_of_def)
  show ?thesis
    using h exponential_kernel_rejects_non_floating [OF h, of counting 2] by simp
qed

subsection \<open>Element types of the full-range and the geometric kernel\<close>

text \<open>
  C6. The full-64-bit-range kernel succeeds, filling every element with one full-range
  draw, exactly for the element types \<open>int64\<close>, \<open>double\<close>, \<open>float\<close> and \<open>bfloat16\<close>.
  For every other element type the call fails with a reported error (the kernel's own
  check for the narrower integer types, the dispatch error for the rest) and the state is
  the one before the call: no generator state is consumed and no element is written.
\<close>

theorem random_full_64_bits_range_kernel_types:
  "(if dtype \<sigma> = kLong \<or> dtype \<sigma> = kDouble \<or> dtype \<sigma> = kFloat \<or> dtype \<sigma> = kBFloat16
    then fst (random_full_64_bits_range_kernel E \<sigma>) = None \<and>
         data (self (snd (random_full_64_bits_range_kernel E \<sigma>))) =
           draws E (replicate (numel \<sigma>) (uniform_int_full_range_distribution (dtype \<sigma>)))
             (generator \<sigma>)
    else if dtype \<sigma> = kByte \<or> dtype \<sigma> = kChar \<or> dtype \<sigma> = kShort \<or> dtype \<sigma> = kInt
    then random_full_64_bits_range_kernel E \<sigma> =
           (Some (CheckFailed ''random_full_64_bits_range_kernel_cpu handles only int64, double, float and bfloat16''), \<sigma>)
    else random_full_64_bits_range_kernel E \<sigma> =
           (Some (NotImplemented ''random_full_64_bits_range_kernel_cpu'' (dtype \<sigma>)), \<sigma>))"
  by (cases "dtype \<sigma>")
     (simp_all add: random_full_64_bits_range_kernel_def AT_DISPATCH_def dispatch_sets
        cpu_serial_kernel_sample_as')

text \<open>
  C7, as the code has it. The geometric kernel dispatches over all the standard types
  (the integer types, \<open>double\<close>, \<open>float\<close>) and \<open>half\<close> and \<open>bfloat16\<close>: an output
  of any of these types is filled with narrowed double-precision geometric draws. This is
  not the set of uniform, cauchy, log-normal, exponential and normal. An output of any
  other type (bool, the complex types) is outside the set: the call fails with the
  dispatch error and nothing is filled.
\<close>

theorem geometric_kernel_types:
  "(if dtype \<sigma> \<in> {kByte, kChar, kShort, kInt, kLong, kFloat, kDouble, kHalf, kBFloat16}
    then fst (geometric_kernel E p \<sigma>) = None \<and>
         data (self (snd (geometric_kernel E p \<sigma>))) =
           map (static_cast E kDouble (dtype \<sigma>))
             (draws E (replicate (numel \<sigma>) (geometric_distribution kDouble p)) (generator \<sigma>))
    else geometric_kernel E p \<sigma> = (Some (NotImplemented ''geometric_cpu'' (dtype \<sigma>)), \<sigma>))"
  by (cases "dtype \<sigma>")
     (simp_all add: geometric_kernel_def AT_DISPATCH_def dispatch_sets cpu_serial_kernel_sample_as')

text \<open>
  An integer output is inside the geometric kernel's set and is filled, where the uniform
  kernel refuses it.
\<close>

theorem geometric_kernel_fills_integer_output:
  "fst (geometric_kernel counting 1 (state_of kInt [5, 5] 0)) = None \<and>
   data (self (snd (geometric_kernel counting 1 (state_of kInt [5, 5] 0)))) = [0, 1] \<and>
   fst (uniform_kernel counting 0 1 (state_of kInt [5, 5] 0)) =
     Some (NotImplemented ''uniform_kernel_cpu'' kInt)"
  by (simp add: geometric_kernel_def uniform_kernel_def AT_DISPATCH_def dispatch_sets
      cpu_serial_kernel_def state_of_def tensor_of_def numel_def dtype_def sample_as_def draw_def
      store_def)

subsection \<open>The paths of the normal kernel\<close>

text \<open>
  C4, as the code has it. The normal kernel takes the vectorized path exactly when the
  output's element type is \<open>float\<close>, it has at least 16 elements and it is contiguous.
  Otherwise, for an output of a floating type (\<open>double\<close>, \<open>float\<close>, \<open>half\<close>,
  \<open>bfloat16\<close>), it takes the scalar bulk path when the output has at least 16 elements and
  is contiguous, and the per-element path when not; for an output of any other type it
  takes no path: the call fails with the dispatch error and the state is unchanged.
\<close>

theorem normal_kernel_path:
  "normal_kernel E mean std \<sigma> =
     (if dtype \<sigma> = kFloat \<and> 16 \<le> numel \<sigma> \<and> is_contiguous (self \<sigma>) then
        normal_fill_vectorize E kFloat (static_cast E kDouble kFloat mean)
          (static_cast E kDouble kFloat std) \<sigma>
      else if dtype \<sigma> \<in> {kDouble, kFloat, kHalf, kBFloat16} then
        (if 16 \<le> numel \<sigma> \<and> is_contiguous (self \<sigma>) then
           normal_fill E (dtype \<sigma>) (static_cast E kDouble (dtype \<sigma>) mean)
             (static_cast E kDouble (dtype \<sigma>) std) \<sigma>
         else
           cpu_serial_kernel
             (sample_as E (normal_distribution kDouble mean std) (static_cast E kDouble (dtype \<sigma>))) \<sigma>)
      else (Some (NotImplemented ''normal_kernel_cpu'' (dtype \<sigma>)), \<sigma>))"
  by (simp add: normal_kernel_def AT_DISPATCH_def dispatch_sets Let_def)

text \<open>
  An output of an integer type fails the first condition, and neither the scalar bulk path
  nor the per-element path is taken: the kernel's result is the dispatch error, which is
  the result of neither.
\<close>

theorem normal_kernel_unsupported_type_takes_no_path:
  "normal_kernel counting 0 1 (state_of kInt [5] 0) =
     (Some (NotImplemented ''normal_kernel_cpu'' kInt), state_of kInt [5] 0) \<and>
   fst (normal_fill counting kInt 0 1 (state_of kInt [5] 0)) = Some OutOfBounds \<and>
   fst (cpu_serial_kernel (sample_as counting (normal_distribution kDouble 0 1)
          (static_cast counting kDouble kInt)) (state_of kInt [5] 0)) = None"
  by (simp add: normal_kernel_def AT_DISPATCH_def dispatch_sets Let_def normal_fill_def
      state_of_def tensor_of_def numel_def dtype_def cpu_serial_kernel_sample_as')

subsection \<open>The precision of the samplers\<close>

text \<open>
  C5, as the code has it. For every supported output element type, the cauchy, log-normal,
  exponential and geometric kernels draw each sample from a distribution instantiated at
  \<open>double\<close> and narrow it to the output element type as the last step. The uniform
  kernel narrows \<open>from\<close> and \<open>to\<close> to the output element type first and draws each
  sample from a uniform distribution instantiated at the output element type.
\<close>

theorem samplers_precision:
  "(dtype \<sigma> \<in> {kDouble, kFloat, kHalf, kBFloat16} \<longrightarrow>
      fills_with E (cauchy_distribution kDouble median sigma) (static_cast E kDouble (dtype \<sigma>)) \<sigma>
        (cauchy_kernel E median sigma \<sigma>) \<and>
      fills_with E (lognormal_distribution kDouble mean std) (static_cast E kDouble (dtype \<sigma>)) \<sigma>
        (log_normal_kernel E mean std \<sigma>) \<and>
      fills_with E (exponential_distribution kDouble lambda) (static_cast E kDouble (dtype \<sigma>)) \<sigma>
        (exponential_kernel E lambda \<sigma>) \<and>
      fills_with E
        (uniform_real_distribution (dtype \<sigma>) (static_cast E kDouble (dtype \<sigma>) from')
           (static_cast E kDouble (dtype \<sigma>) to'))
        (static_cast E (dtype \<sigma>) (dtype \<sigma>)) \<sigma>
        (uniform_kernel E from' to' \<sigma>)) \<and>
   (dtype \<sigma> \<in> {kByte, kChar, kShort, kInt, kLong, kDouble, kFloat, kHalf, kBFloat16} \<longrightarrow>
      fills_with E (geometric_distribution kDouble p) (static_cast E kDouble (dtype \<sigma>)) \<sigma>
        (geometric_kernel E p \<sigma>))"
  by (auto simp: cauchy_kernel_def log_normal_kernel_def exponential_kernel_def uniform_kernel_def
      geometric_kernel_def AT_DISPATCH_def dispatch_sets isFloatingType_def Let_def
      cpu_serial_kernel_fills_with)

theorem samplers_precision_witness:
  "dtype (state_of kHalf [5, 5] 0) \<in> {kDouble, kFloat, kHalf, kBFloat16} \<and>
   dtype (state_of kHalf [5, 5] 0) \<in>
     {kByte, kChar, kShort, kInt, kLong, kDouble, kFloat, kHalf, kBFloat16} \<and>
   fills_with counting (cauchy_distribution kDouble 0 1) (static_cast counting kDouble kHalf)
     (state_of kHalf [5, 5] 0) (cauchy_kernel counting 0 1 (state_of kHalf [5, 5] 0)) \<and>
   fills_with counting (exponential_distribution kDouble 2) (static_cast counting kDouble kHalf)
     (state_of kHalf [5, 5] 0) (exponential_kernel counting 2 (state_of kHalf [5, 5] 0)) \<and>
   fills_with counting (uniform_real_distribution kHalf 2 5) (static_cast counting kHalf kHalf)
     (state_of kHalf [5, 5] 0) (uniform_kernel counting 2 5 (state_of kHalf [5, 5] 0)) \<and>
   fills_with counting (geometric_distribution kDouble 1) (static_cast counting kDouble kHalf)
     (state_of kHalf [5, 5] 0) (geometric_kernel counting 1 (state_of kHalf [5, 5] 0))"
proof -
  have t: "dtype (state_of kHalf [5, 5] 0) = kHalf"
    by (simp add: dtype_def state_of_def tensor_of_def)
  show ?thesis
    using samplers_precision [of "state_of kHalf [5, 5] 0" counting 0 1 0 1 2 2 5 1]
    by (simp add: t)
qed

text \<open>
  For a \<open>half\<close> output the uniform kernel calls the distribution at \<open>half\<close>: it does not
  fill the output with narrowed draws of the double-precision distribution.
\<close>

theorem uniform_kernel_samples_in_output_precision:
  "events (snd (uniform_kernel counting 2 5 (state_of kHalf [5] 0))) =
     [Draw (uniform_real_distribution kHalf 2 5), Write 0] \<and>
   precision (uniform_real_distribution kHalf 2 5 :: int distribution) \<noteq> kDouble \<and>
   \<not> fills_with counting (uniform_real_distribution kDouble 2 5) (static_cast counting kDouble kHalf)
        (state_of kHalf [5] 0) (uniform_kernel counting 2 5 (state_of kHalf [5] 0))"
proof -
  have t: "dtype (state_of kHalf [5] 0) = kHalf" "numel (state_of kHalf [5] 0) = 1"
    "events (state_of kHalf [5] 0) = []"
    by (simp_all add: dtype_def numel_def state_of_def tensor_of_def)
  have e: "events (snd (uniform_kernel counting 2 5 (state_of kHalf [5] 0))) =
     [Draw (uniform_real_distribution kHalf 2 5), Write 0]"
    by (simp add: uniform_kernel_def AT_DISPATCH_def dispatch_sets t Let_def
        cpu_serial_kernel_sample_as')
  show ?thesis
    by (simp add: e fills_with_def t)
qed

subsection \<open>Bernoulli with a probability tensor\<close>

text \<open>
  C9. For a supported output and a probability tensor that expands to the output's element
  count: when the probabilities are \<open>double\<close>, each output element is drawn from a
  Bernoulli distribution instantiated at \<open>double\<close> with the aligned probability; when
  they have another floating type, from one instantiated at \<open>float\<close> with the aligned
  probability converted to \<open>float\<close>. In both cases exactly one sample is drawn per output
  element.
\<close>

theorem bernoulli_kernel_tensor_paths:
  assumes "dtype \<sigma> \<in> {kByte, kChar, kShort, kInt, kLong, kFloat, kDouble, kBool, kBFloat16, kHalf}"
    and "expand_inplace E (numel \<sigma>) p' = Some p"
    and "length (data p) = numel \<sigma>"
  shows "(scalar_type p = kDouble \<longrightarrow>
            fills_from E (bernoulli_distribution kDouble) (static_cast E kDouble (dtype \<sigma>)) (data p) \<sigma>
              (bernoulli_kernel_tensor E p' \<sigma>)) \<and>
         (scalar_type p \<in> {kFloat, kHalf, kBFloat16} \<longrightarrow>
            fills_from E
              (\<lambda>p_val. bernoulli_distribution kFloat (static_cast E (scalar_type p) kFloat p_val))
              (static_cast E kFloat (dtype \<sigma>)) (data p) \<sigma>
              (bernoulli_kernel_tensor E p' \<sigma>)) \<and>
         (scalar_type p \<in> {kDouble, kFloat, kHalf, kBFloat16} \<longrightarrow>
            draw_count (drop (length (events \<sigma>)) (events (snd (bernoulli_kernel_tensor E p' \<sigma>)))) =
              numel \<sigma>)"
proof -
  have K: "bernoulli_kernel_tensor E p' \<sigma> =
      (if scalar_type p = kDouble then
         cpu_serial_kernel_unary
           (\<lambda>p_val. sample_as E (bernoulli_distribution kDouble p_val) (static_cast E kDouble (dtype \<sigma>)))
           (data p) \<sigma>
       else
         AT_DISPATCH (AT_DISPATCH_FLOATING_TYPES_AND2 kBFloat16 kHalf) (scalar_type p)
           ''bernoulli_tensor_cpu_p_''
           (\<lambda>p_t. cpu_serial_kernel_unary
              (\<lambda>p_val. sample_as E (bernoulli_distribution kFloat (static_cast E p_t kFloat p_val))
                          (static_cast E kFloat (dtype \<sigma>)))
              (data p))
           \<sigma>)"
    using assms by (auto simp: bernoulli_kernel_tensor_def AT_DISPATCH_def dispatch_sets)
  have D: "scalar_type p = kDouble \<Longrightarrow>
            fills_from E (bernoulli_distribution kDouble) (static_cast E kDouble (dtype \<sigma>)) (data p) \<sigma>
              (bernoulli_kernel_tensor E p' \<sigma>)"
    using cpu_serial_kernel_unary_fills_from [OF assms(3), of E "bernoulli_distribution kDouble"]
    by (simp add: K)
  have F: "scalar_type p \<in> {kFloat, kHalf, kBFloat16} \<Longrightarrow>
            fills_from E
              (\<lambda>p_val. bernoulli_distribution kFloat (static_cast E (scalar_type p) kFloat p_val))
              (static_cast E kFloat (dtype \<sigma>)) (data p) \<sigma>
              (bernoulli_kernel_tensor E p' \<sigma>)"
    using cpu_serial_kernel_unary_fills_from [OF assms(3), of E
        "\<lambda>p_val. bernoulli_distribution kFloat (static_cast E (scalar_type p) kFloat p_val)"]
    by (auto simp: K AT_DISPATCH_def dispatch_sets)
  have C: "fills_from E d c (data p) \<sigma> res \<Longrightarrow>
           draw_count (drop (length (events \<sigma>)) (events (snd res))) = numel \<sigma>" for d c res
    using assms(3) by (simp add: fills_from_def)
  show ?thesis
    using D F C by blast
qed

theorem bernoulli_kernel_tensor_paths_witness:
  "fills_from counting (bernoulli_distribution kDouble) (static_cast counting kDouble kBool) [1, 0] 
     (state_of kBool [5, 5] 0)
     (bernoulli_kernel_tensor counting (tensor_of kDouble [1, 0]) (state_of kBool [5, 5] 0)) \<and>
   draw_count (drop (length (events (state_of kBool [5, 5] 0)))
     (events (snd (bernoulli_kernel_tensor counting (tensor_of kDouble [1, 0])
        (state_of kBool [5, 5] 0))))) = 2"
proof -
  have t: "dtype (state_of kBool [5, 5] 0) = kBool" "numel (state_of kBool [5, 5] 0) = 2"
    "scalar_type (tensor_of kDouble [1, 0]) = kDouble" "data (tensor_of kDouble [1, 0]) = [1, 0]"
    by (simp_all add: dtype_def numel_def state_of_def tensor_of_def)
  have e: "expand_inplace counting (numel (state_of kBool [5, 5] 0)) (tensor_of kDouble [1, 0]) =
           Some (tensor_of kDouble [1, 0])"
    by (simp add: counting_def t)
  show ?thesis
    using bernoulli_kernel_tensor_paths [OF _ e] by (simp add: t)
qed

subsection \<open>Bounded integer sampling\<close>

lemma from_to_offset:
  "range' \<noteq> 0 \<Longrightarrow> uniform_int_from_to val range' base' - base' < range'"
  by (simp add: uniform_int_from_to_def word_mod_less_divisor word_neq_0_conv)

lemma from_to_one: "uniform_int_from_to val 1 base' = base'"
  by (simp add: uniform_int_from_to_def)

lemma sint_add_uint:
  fixes a d :: "64 word"
  assumes "sint a + uint d \<le> 2 ^ 63 - 1"
  shows "sint (d + a) = sint a + uint d"
proof -
  have "- (2 ^ 63) \<le> sint a"
    using sint_ge [of a] by simp
  moreover have "0 \<le> uint d"
    by simp
  ultimately have lo: "- (2 ^ 63) \<le> sint a + uint d"
    by linarith
  have hi: "sint a + uint d < 2 ^ 63"
    using assms by linarith
  have "d + a = (word_of_int (sint a + uint d) :: 64 word)"
    by simp
  then have "sint (d + a) = signed_take_bit (LENGTH(64) - 1) (sint a + uint d)"
    by (simp only: sint_sbintrunc')
  also have "\<dots> = signed_take_bit 63 (sint a + uint d)"
    by simp
  also have "\<dots> = sint a + uint d"
    by (rule signed_take_bit_int_eq_self [OF lo hi])
  finally show ?thesis .
qed

lemma uniform_int_from_to_sample_value:
  "\<exists>val. fst (uniform_int_from_to_sample E T range' base' g) = uniform_int_from_to val range' base'"
  by (auto simp: uniform_int_from_to_sample_def split: prod.splits)

lemma uniform_int_from_to_call_sample_as:
  "range' \<noteq> 0 \<Longrightarrow>
   uniform_int_from_to_call E T range' base' =
     sample_as
       (E\<lparr>sample := \<lambda>d g. case uniform_int_from_to_sample E T range' base' g of
                               (w, g') \<Rightarrow> (from_int64 E T w, g')\<rparr>)
       (uniform_int_from_to_distribution T range' base') (\<lambda>v. v)"
  by (rule ext) (simp add: uniform_int_from_to_call_def sample_as_def draw_def split: prod.splits)

lemma draws_from_to:
  "\<exists>ws. draws (E\<lparr>sample := \<lambda>d g. case uniform_int_from_to_sample E T range' base' g of
                               (w, g') \<Rightarrow> (from_int64 E T w, g')\<rparr>) ds g =
          map (from_int64 E T) ws \<and>
        (\<forall>w \<in> set ws. \<exists>val. w = uniform_int_from_to val range' base')"
proof (induction ds arbitrary: g)
  case Nil
  then show ?case by simp
next
  case (Cons d ds)
  obtain w g' where s: "uniform_int_from_to_sample E T range' base' g = (w, g')"
    by (cases "uniform_int_from_to_sample E T range' base' g")
  obtain val where v: "w = uniform_int_from_to val range' base'"
    using uniform_int_from_to_sample_value [of E T range' base' g] s by auto
  obtain ws where ws: "draws (E\<lparr>sample := \<lambda>d g. case uniform_int_from_to_sample E T range' base' g of
                               (w, g') \<Rightarrow> (from_int64 E T w, g')\<rparr>) ds g' =
          map (from_int64 E T) ws"
        "\<forall>w \<in> set ws. \<exists>val. w = uniform_int_from_to val range' base'"
    using Cons.IH [of g'] by blast
  show ?case
    by (rule exI [of _ "w # ws"]) (use s v ws in auto)
qed

lemma contract_bounds:
  assumes c: "conversion_contract E val T range' base'" and r: "range' \<noteq> 0"
    and w: "w - base' < range'"
  shows "sint base' \<le> val (from_int64 E T w) \<and> val (from_int64 E T w) < sint base' + uint range'"
proof -
  have lo: "val (from_int64 E T base') \<le> val (from_int64 E T w)"
    using c w unfolding conversion_contract_def
    by (metis diff_self word_zero_le)
  have t1: "base' + range' - 1 - base' = range' - 1" by simp
  have t2: "range' - 1 < range'"
    using r by (simp add: word_less_nat_alt unat_minus_one unat_gt_0)
  have t3: "w - base' \<le> range' - 1"
    using w r by (simp add: word_le_nat_alt word_less_nat_alt unat_minus_one)
  have hi: "val (from_int64 E T w) \<le> val (from_int64 E T (base' + range' - 1))"
    using c t2 t3 unfolding conversion_contract_def t1 [symmetric]
    by blast
  show ?thesis
    using lo hi c unfolding conversion_contract_def by linarith
qed

text \<open>
  C2, as the code has it. For a supported output and \<open>range > 0\<close> the bounded integer
  kernel succeeds, and every element it produces is the conversion to the element type of a
  64-bit value \<open>w\<close> whose unsigned offset \<open>w - base\<close> is below \<open>range\<close> (for
  \<open>range = 1\<close>, of \<open>base\<close> itself). When \<open>base\<close> and \<open>base + range - 1\<close> are both
  converted exactly and conversion keeps the order of the interval, every produced element
  \<open>v\<close> satisfies \<open>base \<le> v < base + range\<close>. For \<open>range = 0\<close> no element is produced.
\<close>

theorem random_from_to_kernel_bounds:
  assumes "dtype \<sigma> \<in> {kByte, kChar, kShort, kInt, kLong, kFloat, kDouble, kBool, kHalf, kBFloat16}"
  shows "(range' \<noteq> 0 \<longrightarrow>
            fst (random_from_to_kernel E range' base' \<sigma>) = None \<and>
            (\<exists>ws. data (self (snd (random_from_to_kernel E range' base' \<sigma>))) =
                     map (from_int64 E (dtype \<sigma>)) ws \<and>
                   length ws = numel \<sigma> \<and>
                   (\<forall>w \<in> set ws. w - base' < range' \<and> (range' = 1 \<longrightarrow> w = base'))) \<and>
            (conversion_contract E val (dtype \<sigma>) range' base' \<longrightarrow>
               (\<forall>v \<in> set (data (self (snd (random_from_to_kernel E range' base' \<sigma>)))).
                  sint base' \<le> val v \<and> val v < sint base' + uint range'))) \<and>
         (range' = 0 \<longrightarrow>
            data (self (snd (random_from_to_kernel E range' base' \<sigma>))) = data (self \<sigma>))"
proof -
  let ?K = "random_from_to_kernel E range' base' \<sigma>"
  let ?E' = "E\<lparr>sample := \<lambda>d g. case uniform_int_from_to_sample E (dtype \<sigma>) range' base' g of
                               (w, g') \<Rightarrow> (from_int64 E (dtype \<sigma>) w, g')\<rparr>"
  let ?d = "uniform_int_from_to_distribution (dtype \<sigma>) range' base'"
  have K: "?K = cpu_serial_kernel (uniform_int_from_to_call E (dtype \<sigma>) range' base') \<sigma>"
    using assms(1) by (auto simp: random_from_to_kernel_def AT_DISPATCH_def dispatch_sets)
  have pos: "fst ?K = None \<and>
            (\<exists>ws. data (self (snd ?K)) = map (from_int64 E (dtype \<sigma>)) ws \<and>
                   length ws = numel \<sigma> \<and>
                   (\<forall>w \<in> set ws. w - base' < range' \<and> (range' = 1 \<longrightarrow> w = base'))) \<and>
            (conversion_contract E val (dtype \<sigma>) range' base' \<longrightarrow>
               (\<forall>v \<in> set (data (self (snd ?K))).
                  sint base' \<le> val v \<and> val v < sint base' + uint range'))"
    if r: "range' \<noteq> 0"
  proof -
    have K': "?K = cpu_serial_kernel (sample_as ?E' ?d (\<lambda>v. v)) \<sigma>"
      by (simp add: K uniform_int_from_to_call_sample_as [OF r])
    obtain ws where ws: "draws ?E' (replicate (numel \<sigma>) ?d) (generator \<sigma>) =
          map (from_int64 E (dtype \<sigma>)) ws"
        "\<forall>w \<in> set ws. \<exists>val. w = uniform_int_from_to val range' base'"
      using draws_from_to [of E "dtype \<sigma>" range' base' "replicate (numel \<sigma>) ?d" "generator \<sigma>"]
      by blast
    have len: "length ws = numel \<sigma>"
      using arg_cong [OF ws(1), of length] by simp
    have b: "\<forall>w \<in> set ws. w - base' < range' \<and> (range' = 1 \<longrightarrow> w = base')"
      using ws(2) from_to_offset [OF r] from_to_one by auto
    have f: "fst ?K = None" and d: "data (self (snd ?K)) = map (from_int64 E (dtype \<sigma>)) ws"
      by (simp_all add: K' cpu_serial_kernel_sample_as' ws(1))
    have e: "\<forall>v \<in> set (data (self (snd ?K))). sint base' \<le> val v \<and> val v < sint base' + uint range'"
      if c: "conversion_contract E val (dtype \<sigma>) range' base'"
      unfolding d using contract_bounds [OF c r] b by auto
    show ?thesis using f d len b e by blast
  qed
  have zero: "data (self (snd ?K)) = data (self \<sigma>)" if r: "range' = 0"
  proof -
    have K0: "random_from_to_kernel E 0 base' \<sigma> =
        cpu_serial_kernel (uniform_int_from_to_call E (dtype \<sigma>) 0 base') \<sigma>"
      using K r by simp
    have "data (self (snd (random_from_to_kernel E 0 base' \<sigma>))) = data (self \<sigma>)"
    proof (cases "numel \<sigma>")
      case 0
      then show ?thesis by (simp add: K0 cpu_serial_kernel_def)
    next
      case (Suc n)
      then have "[0..<numel \<sigma>] = 0 # [1..<numel \<sigma>]"
        by (simp add: upt_conv_Cons)
      then show ?thesis
        by (simp add: K0 cpu_serial_kernel_def uniform_int_from_to_call_def split: prod.splits)
    qed
    then show ?thesis using r by simp
  qed
  show ?thesis using pos zero by blast
qed

lemma counting_contract:
  "conversion_contract counting (\<lambda>v. v) kInt 3 (- 1)"
proof -
  have s: "sint w = uint (w + 1) - 1" if "w + 1 < 3" for w :: "64 word"
  proof -
    have "uint (w + 1) < 3" using that by (simp add: word_less_def)
    then have "sint (- 1 :: 64 word) + uint (w + 1) \<le> 2 ^ 63 - 1" by simp
    from sint_add_uint [OF this] show ?thesis by simp
  qed
  have m: "sint w \<le> sint w'" if "w + 1 \<le> w' + 1" "w' + 1 < 3" for w w' :: "64 word"
  proof -
    have "w + 1 < 3" using that by simp
    then show ?thesis
      using s [of w] s [of w'] that by (simp add: word_le_def)
  qed
  show ?thesis
    using m by (simp add: conversion_contract_def counting_def)
qed

theorem random_from_to_kernel_bounds_witness:
  "dtype (state_of kInt [5, 5] 0) \<in>
     {kByte, kChar, kShort, kInt, kLong, kFloat, kDouble, kBool, kHalf, kBFloat16} \<and>
   (3 :: 64 word) \<noteq> 0 \<and> conversion_contract counting (\<lambda>v. v) kInt 3 (- 1) \<and>
   fst (random_from_to_kernel counting 3 (- 1) (state_of kInt [5, 5] 0)) = None \<and>
   list_all (\<lambda>v. sint (- 1 :: 64 word) \<le> v \<and> v < sint (- 1 :: 64 word) + uint (3 :: 64 word))
     (data (self (snd (random_from_to_kernel counting 3 (- 1) (state_of kInt [5, 5] 0)))))"
proof -
  have t: "dtype (state_of kInt [5, 5] 0) = kInt"
    by (simp add: dtype_def state_of_def tensor_of_def)
  have h: "dtype (state_of kInt [5, 5] 0) \<in>
     {kByte, kChar, kShort, kInt, kLong, kFloat, kDouble, kBool, kHalf, kBFloat16}"
    by (simp add: t)
  have r: "(3 :: 64 word) \<noteq> 0" by simp
  note T = random_from_to_kernel_bounds [OF h, of 3 counting "- 1" "\<lambda>v. v", THEN conjunct1, rule_format, OF r]
  have c: "conversion_contract counting (\<lambda>v. v) (dtype (state_of kInt [5, 5] 0)) 3 (- 1)"
    unfolding t by (rule counting_contract)
  note B = T [THEN conjunct2, THEN conjunct2, rule_format, OF c]
  have "list_all (\<lambda>v. sint (- 1 :: 64 word) \<le> v \<and> v < sint (- 1 :: 64 word) + uint (3 :: 64 word))
     (data (self (snd (random_from_to_kernel counting 3 (- 1) (state_of kInt [5, 5] 0)))))"
    unfolding list_all_iff using B by blast
  then show ?thesis
    using h r counting_contract T [THEN conjunct1] by blast
qed

lemma half_of_int_2049: "half_of_int 2049 = 2048"
proof -
  have "half_ulp 2049 = 2 * half_ulp 1024" by (subst half_ulp.simps) simp
  also have "half_ulp 1024 = 1" by (subst half_ulp.simps) simp
  finally have "half_ulp 2049 = 2" by simp
  then show ?thesis by (simp add: half_of_int_def round_half_even_def)
qed

lemma half_of_int_2050: "half_of_int 2050 = 2050"
proof -
  have "half_ulp 2050 = 2 * half_ulp 1025" by (subst half_ulp.simps) simp
  also have "half_ulp 1025 = 1" by (subst half_ulp.simps) simp
  finally have "half_ulp 2050 = 2" by simp
  then show ?thesis by (simp add: half_of_int_def round_half_even_def)
qed

text \<open>
  That \<open>base + range - 1\<close> alone is representable is not enough: for a \<open>half\<close> output,
  \<open>base = 2049\<close> and \<open>range = 2\<close>, the value 2050 is representable, and the first element
  produced is 2048, below \<open>base\<close>.
\<close>

theorem random_from_to_kernel_half_rounds_below_base:
  "data (self (snd (random_from_to_kernel rounding 2 2049 (state_of kHalf [0, 0] 0)))) = [2048, 2050] \<and>
   from_int64 rounding kHalf (2049 + 2 - 1) = 2050 \<and>
   sint (2049 :: 64 word) = 2049"
proof -
  have f: "from_int64 rounding kHalf w = half_of_int (sint w)" for w
    by (simp add: rounding_def)
  have g: "rng_random rounding g = (of_nat g, Suc g)" for g
    by (simp add: rounding_def counting_def)
  have s: "sint (2049 :: 64 word) = 2049" "sint (2050 :: 64 word) = 2050"
    by simp_all
  have d: "data (self (snd (random_from_to_kernel rounding 2 2049 (state_of kHalf [0, 0] 0)))) =
           [half_of_int 2049, half_of_int 2050]"
    by (simp add: random_from_to_kernel_def AT_DISPATCH_def dispatch_sets cpu_serial_kernel_def
        state_of_def tensor_of_def numel_def dtype_def uniform_int_from_to_call_def
        uniform_int_from_to_sample_def uniform_int_from_to_def store_def f g)
  show ?thesis
    by (simp add: d f half_of_int_2049 half_of_int_2050)
qed

subsection \<open>The bulk normal fill\<close>

lemma frame_refl [simp]: "frame \<sigma> \<sigma>"
  by (simp add: frame_def)

lemma frame_trans: "frame \<sigma> \<sigma>' \<Longrightarrow> frame \<sigma>' \<sigma>'' \<Longrightarrow> frame \<sigma> \<sigma>''"
  by (simp add: frame_def)

lemma frame_store [simp]: "frame \<sigma> (store i v \<sigma>)"
  by (simp add: frame_def)

lemma uniform_loop_effects:
  "events (uniform_loop E T off is \<sigma>) =
     events \<sigma> @ concat (map (\<lambda>i. [Draw (uniform01 E T), Write (off + i)]) is) \<and>
   generator (uniform_loop E T off is \<sigma>) =
     after_draws E (replicate (length is) (uniform01 E T)) (generator \<sigma>) \<and>
   numel (uniform_loop E T off is \<sigma>) = numel \<sigma> \<and>
   scalar_type (self (uniform_loop E T off is \<sigma>)) = scalar_type (self \<sigma>) \<and>
   is_contiguous (self (uniform_loop E T off is \<sigma>)) = is_contiguous (self \<sigma>)"
proof (induction "is" arbitrary: \<sigma>)
  case Nil
  then show ?case by simp
next
  case (Cons i rest)
  obtain v \<sigma>1 where d: "draw E (uniform01 E T) \<sigma> = (v, \<sigma>1)"
    by (cases "draw E (uniform01 E T) \<sigma>")
  have s1: "\<sigma>1 = snd (draw E (uniform01 E T) \<sigma>)"
    using d by simp
  have "uniform_loop E T off (i # rest) \<sigma> = uniform_loop E T off rest (store (off + i) v \<sigma>1)"
    using d by (simp add: uniform01_def)
  then show ?case
    using Cons.IH [of "store (off + i) v \<sigma>1"]
    by (simp add: s1 numel_def)
qed

lemma normal_fill_16_step_effects:
  "events (normal_fill_16_step E T off mean std j \<sigma>) =
     events \<sigma> @ [Write (off + j), Write (off + j + 8)] \<and>
   frame \<sigma> (normal_fill_16_step E T off mean std j \<sigma>)"
  by (simp add: normal_fill_16_step_def Let_def frame_def)

lemma fold_normal_fill_16_step:
  "events (fold (normal_fill_16_step E T off mean std) js \<sigma>) =
     events \<sigma> @ concat (map (\<lambda>j. [Write (off + j), Write (off + j + 8)]) js) \<and>
   frame \<sigma> (fold (normal_fill_16_step E T off mean std) js \<sigma>)"
proof (induction js arbitrary: \<sigma>)
  case Nil
  then show ?case by simp
next
  case (Cons j js)
  show ?case
    using Cons.IH [of "normal_fill_16_step E T off mean std j \<sigma>"]
      normal_fill_16_step_effects [of E T off mean std j \<sigma>]
    by (auto intro: frame_trans)
qed

lemma normal_fill_16_effects:
  "events (normal_fill_16 E T off mean std \<sigma>) = events \<sigma> @ fill16_events off \<and>
   frame \<sigma> (normal_fill_16 E T off mean std \<sigma>)"
  using fold_normal_fill_16_step [of E T off mean std "[0..<8]" \<sigma>]
  by (simp only: normal_fill_16_def fill16_events_def)

lemma fold_store_effects:
  "events (fold (\<lambda>k. store (off + k) (vec ! k)) ks \<sigma>) = events \<sigma> @ map (\<lambda>k. Write (off + k)) ks \<and>
   frame \<sigma> (fold (\<lambda>k. store (off + k) (vec ! k)) ks \<sigma>)"
proof (induction ks arbitrary: \<sigma>)
  case Nil
  then show ?case by simp
next
  case (Cons k ks)
  show ?case
    using Cons.IH [of "store (off + k) (vec ! k) \<sigma>"]
    by (auto intro: frame_trans [OF frame_store])
qed

lemma store_vec_effects:
  "events (store_vec off vec \<sigma>) = events \<sigma> @ map (\<lambda>k. Write (off + k)) [0..<length vec] \<and>
   frame \<sigma> (store_vec off vec \<sigma>)"
  using fold_store_effects [of off vec "[0..<length vec]" \<sigma>]
  by (simp only: store_vec_def)

lemma length_loadu [simp]: "length (loadu n off \<sigma>) = n"
  by (simp add: loadu_def)

lemma store_vec_twice_effects:
  assumes "length o1 = n" "length o2 = n"
  shows "events (store_vec (off + n) o2 (store_vec off o1 \<sigma>)) = events \<sigma> @ fill16_vec_events n off \<and>
         frame \<sigma> (store_vec (off + n) o2 (store_vec off o1 \<sigma>))"
  using store_vec_effects [of off o1 \<sigma>] store_vec_effects [of "off + n" o2 "store_vec off o1 \<sigma>"]
    assms
  by (auto simp: fill16_vec_events_def intro: frame_trans)

lemma normal_fill_16_vectorize_effects:
  "events (normal_fill_16_vectorize E off tp one mt mean std \<sigma>) =
     events \<sigma> @ fill16_vec_events (Vec_size E) off \<and>
   frame \<sigma> (normal_fill_16_vectorize E off tp one mt mean std \<sigma>)"
  unfolding normal_fill_16_vectorize_def Let_def
  by (rule store_vec_twice_effects) simp_all

lemma block_loop_effects:
  assumes "\<And>i \<sigma>. events (block i \<sigma>) = events \<sigma> @ bev i \<and> frame \<sigma> (block i \<sigma>)"
  shows "events (block_loop block i n \<sigma>) =
           events \<sigma> @ concat (map (\<lambda>k. bev (i + 16 * k)) [0..<(n - i) div 16]) \<and>
         frame \<sigma> (block_loop block i n \<sigma>)"
  using assms
proof (induction block i n \<sigma> rule: block_loop.induct)
  case (1 block i n \<sigma>)
  show ?case
  proof (cases "int i < int n - 15")
    case True
    then have le: "i + 16 \<le> n" by linarith
    then have c: "(n - i) div 16 = Suc ((n - (i + 16)) div 16)"
      by (simp add: le_div_geq [of 16 "n - i"])
    have m: "map (\<lambda>k. bev (i + 16 * k)) [0..<Suc m] =
             bev i # map (\<lambda>k. bev (i + 16 + 16 * k)) [0..<m]" for m
      by (simp only: map_upt_Suc) (simp add: add.assoc)
    have u: "block_loop block i n \<sigma> = block_loop block (i + 16) n (block i \<sigma>)"
      using True by (subst block_loop.simps) simp
    have A: "events (block i \<sigma>) = events \<sigma> @ bev i" and F: "frame \<sigma> (block i \<sigma>)"
      using "1.prems" [of i \<sigma>] by simp_all
    have B: "events (block_loop block (i + 16) n (block i \<sigma>)) =
               events (block i \<sigma>) @
               concat (map (\<lambda>k. bev (i + 16 + 16 * k)) [0..<(n - (i + 16)) div 16])"
      and G: "frame (block i \<sigma>) (block_loop block (i + 16) n (block i \<sigma>))"
      using "1.IH" [OF True "1.prems"] by simp_all
    show ?thesis
      unfolding u c m
      using frame_trans [OF F G] by (simp add: A B)
  next
    case False
    then have z: "(n - i) div 16 = 0" by simp
    have "block_loop block i n \<sigma> = \<sigma>"
      using False by (subst block_loop.simps) simp
    then show ?thesis by (simp add: z)
  qed
qed

lemma after_draws_append:
  "after_draws E (xs @ ys) g = after_draws E ys (after_draws E xs g)"
  by (induction xs arbitrary: g) simp_all

lemma uniform_loop_upt_effects:
  "events (uniform_loop E T off [0..<n] \<sigma>) = events \<sigma> @ uniform_events (uniform01 E T) off n"
  "generator (uniform_loop E T off [0..<n] \<sigma>) =
     after_draws E (replicate n (uniform01 E T)) (generator \<sigma>)"
  "numel (uniform_loop E T off [0..<n] \<sigma>) = numel \<sigma>"
  using uniform_loop_effects [of E T off "[0..<n]" \<sigma>]
  by (simp_all add: uniform_events_def)

lemma bulk_fill_effects:
  assumes blk: "\<And>i \<sigma>. events (block i \<sigma>) = events \<sigma> @ bev i \<and> frame \<sigma> (block i \<sigma>)"
    and n: "n = numel \<sigma>"
    and \<sigma>1: "\<sigma>1 = uniform_loop E T 0 [0..<n] \<sigma>"
    and \<sigma>2: "\<sigma>2 = block_loop block 0 n \<sigma>1"
    and \<sigma>3: "\<sigma>3 = (if n mod 16 \<noteq> 0 then block (n - 16) (uniform_loop E T (n - 16) [0..<16] \<sigma>2)
                   else \<sigma>2)"
  shows "events \<sigma>3 = events \<sigma> @ bulk_events (uniform01 E T) bev n \<and>
         generator \<sigma>3 = after_draws E (replicate (n + tail_draws n) (uniform01 E T)) (generator \<sigma>) \<and>
         numel \<sigma>3 = n"
proof -
  have e1: "events \<sigma>1 = events \<sigma> @ uniform_events (uniform01 E T) 0 n"
    and g1: "generator \<sigma>1 = after_draws E (replicate n (uniform01 E T)) (generator \<sigma>)"
    and n1: "numel \<sigma>1 = n"
    by (simp_all add: \<sigma>1 uniform_loop_upt_effects n)
  have e2: "events \<sigma>2 = events \<sigma>1 @ concat (map (\<lambda>k. bev (16 * k)) [0..<n div 16])"
    and f2: "frame \<sigma>1 \<sigma>2"
    using block_loop_effects [of block bev 0 n \<sigma>1, OF blk] by (simp_all add: \<sigma>2)
  show ?thesis
  proof (cases "n mod 16 = 0")
    case True
    then show ?thesis
      using f2 by (simp add: \<sigma>3 e2 e1 g1 n1 bulk_events_def tail_draws_def frame_def)
  next
    case False
    let ?\<sigma>t = "uniform_loop E T (n - 16) [0..<16] \<sigma>2"
    have et: "events ?\<sigma>t = events \<sigma>2 @ uniform_events (uniform01 E T) (n - 16) 16"
      and gt: "generator ?\<sigma>t = after_draws E (replicate 16 (uniform01 E T)) (generator \<sigma>2)"
      and nt: "numel ?\<sigma>t = numel \<sigma>2"
      by (simp_all only: uniform_loop_upt_effects)
    have e3: "events \<sigma>3 = events ?\<sigma>t @ bev (n - 16)" and f3: "frame ?\<sigma>t \<sigma>3"
      using blk [of "n - 16" ?\<sigma>t] False by (simp_all add: \<sigma>3)
    have g: "generator \<sigma>3 =
             after_draws E (replicate n (uniform01 E T) @ replicate 16 (uniform01 E T)) (generator \<sigma>)"
      using f3 f2 by (simp only: after_draws_append frame_def gt g1)
    show ?thesis
      using False f3 f2
      by (simp add: g e3 et e2 e1 nt n1 bulk_events_def tail_draws_def frame_def replicate_add)
  qed
qed

lemma normal_fill_effects:
  assumes "16 \<le> numel \<sigma>"
  shows "fst (normal_fill E T mean std \<sigma>) = None \<and>
         events (snd (normal_fill E T mean std \<sigma>)) =
           events \<sigma> @ bulk_events (uniform01 E T) fill16_events (numel \<sigma>) \<and>
         generator (snd (normal_fill E T mean std \<sigma>)) =
           after_draws E (replicate (numel \<sigma> + tail_draws (numel \<sigma>)) (uniform01 E T)) (generator \<sigma>) \<and>
         numel (snd (normal_fill E T mean std \<sigma>)) = numel \<sigma>"
proof -
  let ?n = "numel \<sigma>"
  let ?\<sigma>1 = "uniform_loop E T 0 [0..<?n] \<sigma>"
  let ?block = "\<lambda>i. normal_fill_16 E T i mean std"
  let ?\<sigma>2 = "block_loop ?block 0 ?n ?\<sigma>1"
  let ?\<sigma>3 = "if ?n mod 16 \<noteq> 0 then ?block (?n - 16) (uniform_loop E T (?n - 16) [0..<16] ?\<sigma>2)
             else ?\<sigma>2"
  have r: "normal_fill E T mean std \<sigma> = (None, ?\<sigma>3)"
    using assms by (simp add: normal_fill_def Let_def)
  have "events ?\<sigma>3 = events \<sigma> @ bulk_events (uniform01 E T) fill16_events ?n \<and>
        generator ?\<sigma>3 =
          after_draws E (replicate (?n + tail_draws ?n) (uniform01 E T)) (generator \<sigma>) \<and>
        numel ?\<sigma>3 = ?n"
    by (rule bulk_fill_effects [of ?block fill16_events ?n \<sigma> ?\<sigma>1 E T ?\<sigma>2 ?\<sigma>3])
       (simp_all only: normal_fill_16_effects)
  then show ?thesis
    unfolding r fst_conv snd_conv by simp
qed

lemma vec_block_effects:
  "events ((if Vec_size E = 8 then normal_fill_16_vectorize E i tp one mt mean std
            else normal_fill_16 E T i mean std) \<sigma>) = events \<sigma> @ vec_block_events E i \<and>
   frame \<sigma> ((if Vec_size E = 8 then normal_fill_16_vectorize E i tp one mt mean std
              else normal_fill_16 E T i mean std) \<sigma>)"
  using normal_fill_16_vectorize_effects [of E i tp one mt mean std \<sigma>]
    normal_fill_16_effects [of E T i mean std \<sigma>]
  by (simp add: vec_block_events_def)

lemma normal_fill_vectorize_effects:
  assumes "16 \<le> numel \<sigma>"
  shows "fst (normal_fill_vectorize E T mean std \<sigma>) = None \<and>
         events (snd (normal_fill_vectorize E T mean std \<sigma>)) =
           events \<sigma> @ bulk_events (uniform01 E T) (vec_block_events E) (numel \<sigma>) \<and>
         generator (snd (normal_fill_vectorize E T mean std \<sigma>)) =
           after_draws E (replicate (numel \<sigma> + tail_draws (numel \<sigma>)) (uniform01 E T)) (generator \<sigma>) \<and>
         numel (snd (normal_fill_vectorize E T mean std \<sigma>)) = numel \<sigma>"
proof -
  let ?n = "numel \<sigma>"
  let ?\<sigma>1 = "uniform_loop E T 0 [0..<?n] \<sigma>"
  let ?block = "\<lambda>i. if Vec_size E = 8
                     then normal_fill_16_vectorize E i (static_cast E kDouble kFloat (two_pi E))
                            (from_int64 E kFloat 1) (from_int64 E kFloat (- 2)) mean std
                     else normal_fill_16 E T i mean std"
  let ?\<sigma>2 = "block_loop ?block 0 ?n ?\<sigma>1"
  let ?\<sigma>3 = "if ?n mod 16 \<noteq> 0 then ?block (?n - 16) (uniform_loop E T (?n - 16) [0..<16] ?\<sigma>2)
             else ?\<sigma>2"
  have r: "normal_fill_vectorize E T mean std \<sigma> = (None, ?\<sigma>3)"
    using assms by (simp add: normal_fill_vectorize_def Let_def)
  have "events ?\<sigma>3 = events \<sigma> @ bulk_events (uniform01 E T) (vec_block_events E) ?n \<and>
        generator ?\<sigma>3 =
          after_draws E (replicate (?n + tail_draws ?n) (uniform01 E T)) (generator \<sigma>) \<and>
        numel ?\<sigma>3 = ?n"
    by (rule bulk_fill_effects [of ?block "vec_block_events E" ?n \<sigma> ?\<sigma>1 E T ?\<sigma>2 ?\<sigma>3])
       (simp_all only: vec_block_effects)
  then show ?thesis
    unfolding r fst_conv snd_conv by simp
qed

lemma written_append [simp]: "written (xs @ ys) = written xs \<union> written ys"
  by (simp add: written_def)

lemma written_concat_map: "written (concat (map f ks)) = (\<Union>k \<in> set ks. written (f k))"
  by (induction ks) (simp_all add: written_def)

lemma written_Writes [simp]: "written (map (\<lambda>k. Write (f k)) ks) = f ` set ks"
  by (induction ks) (simp_all add: written_def)

lemma written_pairs:
  "written (concat (map (\<lambda>j. [Write (f j), Write (g j)]) js)) = f ` set js \<union> g ` set js"
  by (induction js) (auto simp: written_def)

lemma image_offset: "(\<lambda>j. c + j + d) ` {0..<m} = {c + d..<c + d + (m::nat)}"
proof (rule set_eqI)
  fix x
  show "x \<in> (\<lambda>j. c + j + d) ` {0..<m} \<longleftrightarrow> x \<in> {c + d..<c + d + m}"
  proof
    assume "x \<in> (\<lambda>j. c + j + d) ` {0..<m}"
    then obtain j where "j < m" "x = c + j + d" by auto
    then show "x \<in> {c + d..<c + d + m}" by simp
  next
    assume "x \<in> {c + d..<c + d + m}"
    then have "x = c + (x - c - d) + d" "x - c - d \<in> {0..<m}" by auto
    then show "x \<in> (\<lambda>j. c + j + d) ` {0..<m}" by (rule image_eqI)
  qed
qed

lemma two_halves: "{off..<off + 8} \<union> {off + 8..<off + 8 + 8} = {off..<off + (16::nat)}"
  by auto

lemma written_fill16_events: "written (fill16_events off) = {off..<off + 16}"
proof -
  have a: "(\<lambda>j. off + j) ` {0..<8} = {off..<off + 8}"
    using image_offset [of off 0 8] by simp
  have b: "(\<lambda>j. off + j + 8) ` {0..<8} = {off + 8..<off + 8 + 8}"
    by (rule image_offset)
  show ?thesis
    unfolding fill16_events_def written_pairs
    by (simp only: set_upt a b two_halves)
qed

lemma written_fill16_vec_events: "written (fill16_vec_events 8 off) = {off..<off + 16}"
proof -
  have a: "(\<lambda>j. off + j) ` {0..<8} = {off..<off + 8}"
    using image_offset [of off 0 8] by simp
  have b: "(\<lambda>j. off + 8 + j) ` {0..<8} = {off + 8..<off + 8 + 8}"
    using image_offset [of "off + 8" 0 8] by simp
  show ?thesis
    unfolding fill16_vec_events_def written_append written_Writes
    by (simp only: set_upt a b two_halves)
qed

lemma written_vec_block_events: "written (vec_block_events E off) = {off..<off + 16}"
  by (simp add: vec_block_events_def written_fill16_events written_fill16_vec_events)

lemma blocks_cover: "(\<Union>k \<in> {0..<m}. {16 * k..<16 * k + 16}) = {0..<16 * (m::nat)}"
proof (induction m)
  case 0
  then show ?case by simp
next
  case (Suc m)
  have "{0..<Suc m} = insert m {0..<m}" by auto
  then show ?case using Suc.IH by auto
qed

lemma rewritten_blocks:
  assumes w: "\<And>off. written (bev off) = {off..<off + 16}" and n: "16 \<le> n"
  shows "rewritten bev n = {n - 16..<16 * (n div 16)}"
proof -
  have "16 * (n div 16) \<le> n" by simp
  then show ?thesis
    using n by (auto simp: rewritten_def written_concat_map w blocks_cover)
qed

lemma card_rewritten:
  assumes "16 \<le> (n::nat)"
  shows "card {n - 16..<16 * (n div 16)} = 16 - n mod 16"
proof -
  have "16 * (n div 16) = n - n mod 16"
    by (simp add: minus_mod_eq_mult_div [symmetric])
  then show ?thesis using assms by simp
qed

lemma blocks_disjoint:
  assumes w: "\<And>off. written (bev off) = {off..<off + 16}" and "k \<noteq> (l::nat)"
  shows "written (bev (16 * k)) \<inter> written (bev (16 * l)) = {}"
  using assms(2) by (auto simp: w)

lemma length_uniform_events [simp]: "length (uniform_events u off n) = 2 * n"
  by (induction n) (simp_all add: uniform_events_def)

lemma draw_count_uniform_events [simp]: "draw_count (uniform_events u off n) = n"
  by (induction n) (simp_all add: uniform_events_def draw_count_def)

lemma draw_count_Nil [simp]: "draw_count [] = 0"
  by (simp add: draw_count_def)

lemma draw_count_Writes: "draw_count (concat (map (\<lambda>j. [Write (f j), Write (g j)]) js)) = 0"
  by (induction js) (simp_all add: draw_count_def)

lemma draw_count_fill16_events [simp]: "draw_count (fill16_events off) = 0"
  by (simp only: fill16_events_def draw_count_Writes)

lemma draw_count_fill16_vec_events [simp]: "draw_count (fill16_vec_events n off) = 0"
  by (simp add: fill16_vec_events_def draw_count_def)

lemma draw_count_vec_block_events [simp]: "draw_count (vec_block_events E off) = 0"
  by (simp add: vec_block_events_def)

lemma draw_count_blocks:
  "(\<And>off. draw_count (bev off) = 0) \<Longrightarrow> draw_count (concat (map (\<lambda>k. bev (f k)) ks)) = 0"
  by (induction ks) simp_all

lemma new_events_append:
  "events (snd res) = events \<sigma> @ evs \<Longrightarrow> new_events \<sigma> res = evs"
  by (simp add: new_events_def)

lemma normal_fill_tail_effects:
  fixes \<sigma> :: "('g, 'v) state"
  assumes "16 \<le> numel \<sigma>"
  shows "new_events \<sigma> (normal_fill E T mean std \<sigma>) =
           bulk_events (uniform01 E T) fill16_events (numel \<sigma>) \<and>
         new_events \<sigma> (normal_fill_vectorize E T mean std \<sigma>) =
           bulk_events (uniform01 E T) (vec_block_events E) (numel \<sigma>) \<and>
         (numel \<sigma> mod 16 \<noteq> 0 \<longrightarrow>
            rewritten (fill16_events :: nat \<Rightarrow> 'v event list) (numel \<sigma>) =
              {numel \<sigma> - 16..<16 * (numel \<sigma> div 16)} \<and>
            rewritten (vec_block_events E) (numel \<sigma>) = {numel \<sigma> - 16..<16 * (numel \<sigma> div 16)} \<and>
            card {numel \<sigma> - 16..<16 * (numel \<sigma> div 16)} = 16 - numel \<sigma> mod 16 \<and>
            1 \<le> 16 - numel \<sigma> mod 16 \<and> 16 - numel \<sigma> mod 16 \<le> 15) \<and>
         (numel \<sigma> mod 16 = 0 \<longrightarrow>
            (\<forall>k l. k \<noteq> l \<longrightarrow>
               written (fill16_events (16 * k) :: 'v event list) \<inter>
                 written (fill16_events (16 * l) :: 'v event list) = {} \<and>
               written (vec_block_events E (16 * k)) \<inter> written (vec_block_events E (16 * l)) = {}))"
proof -
  have a: "new_events \<sigma> (normal_fill E T mean std \<sigma>) =
           bulk_events (uniform01 E T) fill16_events (numel \<sigma>)"
    using normal_fill_effects [OF assms, of E T mean std] by (simp add: new_events_append)
  have b: "new_events \<sigma> (normal_fill_vectorize E T mean std \<sigma>) =
           bulk_events (uniform01 E T) (vec_block_events E) (numel \<sigma>)"
    using normal_fill_vectorize_effects [OF assms, of E T mean std] by (simp add: new_events_append)
  have c: "rewritten (fill16_events :: nat \<Rightarrow> 'v event list) (numel \<sigma>) =
             {numel \<sigma> - 16..<16 * (numel \<sigma> div 16)}"
    by (rule rewritten_blocks [OF written_fill16_events assms])
  have d: "rewritten (vec_block_events E) (numel \<sigma>) = {numel \<sigma> - 16..<16 * (numel \<sigma> div 16)}"
    by (rule rewritten_blocks [OF written_vec_block_events assms])
  have e: "card {numel \<sigma> - 16..<16 * (numel \<sigma> div 16)} = 16 - numel \<sigma> mod 16"
    by (rule card_rewritten [OF assms])
  have f: "numel \<sigma> mod 16 \<noteq> 0 \<longrightarrow> 1 \<le> 16 - numel \<sigma> mod 16 \<and> 16 - numel \<sigma> mod 16 \<le> 15"
  proof -
    have "numel \<sigma> mod 16 < 16" by simp
    then show ?thesis by arith
  qed
  have g: "k \<noteq> l \<longrightarrow>
           written (fill16_events (16 * k) :: 'v event list) \<inter>
             written (fill16_events (16 * l) :: 'v event list) = {} \<and>
           written (vec_block_events E (16 * k)) \<inter> written (vec_block_events E (16 * l)) = {}"
    for k l :: nat
    using blocks_disjoint [of "fill16_events :: nat \<Rightarrow> 'v event list" k l, OF written_fill16_events]
      blocks_disjoint [of "vec_block_events E" k l, OF written_vec_block_events]
    by blast
  show ?thesis
    using a b c d e f g by blast
qed

lemma normal_fill_draw_effects:
  fixes \<sigma> :: "('g, 'v) state"
  assumes "16 \<le> numel \<sigma>"
  shows "fst (normal_fill E T mean std \<sigma>) = None \<and>
         take (2 * numel \<sigma>) (new_events \<sigma> (normal_fill E T mean std \<sigma>)) =
           uniform_events (uniform01 E T) 0 (numel \<sigma>) \<and>
         draw_count (take (2 * numel \<sigma>) (new_events \<sigma> (normal_fill E T mean std \<sigma>))) = numel \<sigma> \<and>
         drop (2 * numel \<sigma>) (new_events \<sigma> (normal_fill E T mean std \<sigma>)) =
           concat (map (\<lambda>k. fill16_events (16 * k)) [0..<numel \<sigma> div 16]) @
           (if numel \<sigma> mod 16 \<noteq> 0
            then uniform_events (uniform01 E T) (numel \<sigma> - 16) 16 @ fill16_events (numel \<sigma> - 16)
            else []) \<and>
         draw_count (concat (map (\<lambda>k. fill16_events (16 * k) :: 'v event list)
           [0..<numel \<sigma> div 16])) = 0 \<and>
         draw_count (drop (2 * numel \<sigma>) (new_events \<sigma> (normal_fill E T mean std \<sigma>))) =
           tail_draws (numel \<sigma>) \<and>
         generator (snd (normal_fill E T mean std \<sigma>)) =
           after_draws E (replicate (numel \<sigma> + tail_draws (numel \<sigma>)) (uniform01 E T)) (generator \<sigma>) \<and>
         take (2 * numel \<sigma>) (new_events \<sigma> (normal_fill_vectorize E T mean std \<sigma>)) =
           uniform_events (uniform01 E T) 0 (numel \<sigma>) \<and>
         draw_count (drop (2 * numel \<sigma>) (new_events \<sigma> (normal_fill_vectorize E T mean std \<sigma>))) =
           tail_draws (numel \<sigma>)"
proof -
  let ?n = "numel \<sigma>"
  let ?u = "uniform01 E T"
  have a: "new_events \<sigma> (normal_fill E T mean std \<sigma>) = bulk_events ?u fill16_events ?n"
    using normal_fill_effects [OF assms, of E T mean std] by (simp add: new_events_append)
  have b: "new_events \<sigma> (normal_fill_vectorize E T mean std \<sigma>) =
           bulk_events ?u (vec_block_events E) ?n"
    using normal_fill_vectorize_effects [OF assms, of E T mean std] by (simp add: new_events_append)
  have z1: "draw_count (concat (map (\<lambda>k. fill16_events (16 * k) :: 'v event list) ks)) = 0" for ks
    by (rule draw_count_blocks) simp
  have z2: "draw_count (concat (map (\<lambda>k. vec_block_events E (16 * k)) ks)) = 0" for ks
    by (rule draw_count_blocks) simp
  have t: "take (2 * ?n) (bulk_events ?u bev ?n) = uniform_events ?u 0 ?n" for bev
    by (simp add: bulk_events_def)
  have d: "drop (2 * ?n) (bulk_events ?u bev ?n) =
             concat (map (\<lambda>k. bev (16 * k)) [0..<?n div 16]) @
             (if ?n mod 16 \<noteq> 0 then uniform_events ?u (?n - 16) 16 @ bev (?n - 16) else [])" for bev
    by (simp add: bulk_events_def)
  have c1: "draw_count (drop (2 * ?n) (bulk_events ?u fill16_events ?n)) = tail_draws ?n"
    unfolding d by (simp add: z1 tail_draws_def)
  have c2: "draw_count (drop (2 * ?n) (bulk_events ?u (vec_block_events E) ?n)) = tail_draws ?n"
    unfolding d by (simp add: z2 tail_draws_def)
  have p1: "fst (normal_fill E T mean std \<sigma>) = None"
    and p7: "generator (snd (normal_fill E T mean std \<sigma>)) =
           after_draws E (replicate (?n + tail_draws ?n) ?u) (generator \<sigma>)"
    using normal_fill_effects [OF assms, of E T mean std] by simp_all
  have p2: "take (2 * ?n) (new_events \<sigma> (normal_fill E T mean std \<sigma>)) = uniform_events ?u 0 ?n"
    unfolding a by (rule t)
  have p3: "draw_count (take (2 * ?n) (new_events \<sigma> (normal_fill E T mean std \<sigma>))) = ?n"
    unfolding p2 by simp
  have p4: "drop (2 * ?n) (new_events \<sigma> (normal_fill E T mean std \<sigma>)) =
           concat (map (\<lambda>k. fill16_events (16 * k)) [0..<?n div 16]) @
           (if ?n mod 16 \<noteq> 0 then uniform_events ?u (?n - 16) 16 @ fill16_events (?n - 16) else [])"
    unfolding a by (rule d)
  have p6: "draw_count (drop (2 * ?n) (new_events \<sigma> (normal_fill E T mean std \<sigma>))) = tail_draws ?n"
    unfolding a by (rule c1)
  have p8: "take (2 * ?n) (new_events \<sigma> (normal_fill_vectorize E T mean std \<sigma>)) =
           uniform_events ?u 0 ?n"
    unfolding b by (rule t)
  have p9: "draw_count (drop (2 * ?n) (new_events \<sigma> (normal_fill_vectorize E T mean std \<sigma>))) =
           tail_draws ?n"
    unfolding b by (rule c2)
  show ?thesis
    by (intro conjI p1 p2 p3 p4 z1 p6 p7 p8 p9)
qed

subsection \<open>Determinism\<close>

lemma same_shape_refl [simp]: "same_shape \<sigma> \<sigma>"
  by (simp add: same_shape_def)

lemma same_outcome_refl [simp]: "same_outcome r r"
  by (simp add: same_outcome_def)












lemma uniform_loop_serial:
  "uniform_loop E T off is \<sigma> =
     snd (serial_loop (\<lambda>u::unit. sample_as E (uniform01 E T) (\<lambda>v. v)) (map (\<lambda>i. (off + i, ())) is) \<sigma>)"
  by (induction "is" arbitrary: \<sigma>) (simp_all add: sample_as_def uniform01_def split: prod.splits)







subsection \<open>What the bulk normal fill leaves in the buffer\<close>

lemma length_box_muller_16 [simp]: "length (box_muller_16 c s xs) = 16"
  by (simp add: box_muller_16_def)

lemma nth_box_muller_16:
  "k < 16 \<Longrightarrow> box_muller_16 c s xs ! k =
     (if k < 8 then c (xs ! k) (xs ! (k + 8)) else s (xs ! (k - 8)) (xs ! k))"
  by (auto simp: box_muller_16_def nth_append)

lemma normal_fill_16_step_data:
  "data (self (normal_fill_16_step E T off mean std j \<sigma>)) =
     (data (self \<sigma>))
       [off + j := box_muller_cos E T mean std (data (self \<sigma>) ! (off + j)) (data (self \<sigma>) ! (off + j + 8)),
        off + j + 8 := box_muller_sin E T mean std (data (self \<sigma>) ! (off + j)) (data (self \<sigma>) ! (off + j + 8))]"
  by (simp add: normal_fill_16_step_def Let_def box_muller_cos_def box_muller_sin_def
      box_muller_radius_def box_muller_theta_def)

lemma fold_normal_fill_16_step_data:
  assumes "m \<le> 8" and "off + 16 \<le> length (data (self \<sigma>))"
  shows "length (data (self (fold (normal_fill_16_step E T off mean std) [0..<m] \<sigma>))) =
           length (data (self \<sigma>)) \<and>
         (\<forall>i < length (data (self \<sigma>)).
            data (self (fold (normal_fill_16_step E T off mean std) [0..<m] \<sigma>)) ! i =
              (if off \<le> i \<and> i < off + m
               then box_muller_cos E T mean std (data (self \<sigma>) ! i) (data (self \<sigma>) ! (i + 8))
               else if off + 8 \<le> i \<and> i < off + 8 + m
               then box_muller_sin E T mean std (data (self \<sigma>) ! (i - 8)) (data (self \<sigma>) ! i)
               else data (self \<sigma>) ! i))"
  using assms(1)
proof (induction m)
  case 0
  then show ?case by auto
next
  case (Suc m)
  let ?d = "data (self \<sigma>)"
  let ?\<tau> = "fold (normal_fill_16_step E T off mean std) [0..<m] \<sigma>"
  have m: "m < 8" using Suc.prems by simp
  have IH: "length (data (self ?\<tau>)) = length ?d"
    "\<And>i. i < length ?d \<Longrightarrow> data (self ?\<tau>) ! i =
              (if off \<le> i \<and> i < off + m
               then box_muller_cos E T mean std (?d ! i) (?d ! (i + 8))
               else if off + 8 \<le> i \<and> i < off + 8 + m
               then box_muller_sin E T mean std (?d ! (i - 8)) (?d ! i)
               else ?d ! i)"
    using Suc.IH m by simp_all
  have r1: "data (self ?\<tau>) ! (off + m) = ?d ! (off + m)"
    using IH(2) [of "off + m"] assms(2) m by simp
  have r2: "data (self ?\<tau>) ! (off + m + 8) = ?d ! (off + m + 8)"
    using IH(2) [of "off + m + 8"] assms(2) m by simp
  have f: "fold (normal_fill_16_step E T off mean std) [0..<Suc m] \<sigma> =
           normal_fill_16_step E T off mean std m ?\<tau>"
    by simp
  show ?case
    unfolding f normal_fill_16_step_data r1 r2
  proof (intro conjI allI impI)
    show "length ((data (self ?\<tau>))
            [off + m := box_muller_cos E T mean std (?d ! (off + m)) (?d ! (off + m + 8)),
             off + m + 8 := box_muller_sin E T mean std (?d ! (off + m)) (?d ! (off + m + 8))]) =
          length ?d"
      by (simp add: IH(1))
  next
    fix i assume i: "i < length ?d"
    show "(data (self ?\<tau>))
            [off + m := box_muller_cos E T mean std (?d ! (off + m)) (?d ! (off + m + 8)),
             off + m + 8 := box_muller_sin E T mean std (?d ! (off + m)) (?d ! (off + m + 8))] ! i =
          (if off \<le> i \<and> i < off + Suc m
           then box_muller_cos E T mean std (?d ! i) (?d ! (i + 8))
           else if off + 8 \<le> i \<and> i < off + 8 + Suc m
           then box_muller_sin E T mean std (?d ! (i - 8)) (?d ! i)
           else ?d ! i)"
    proof (cases "i = off + m + 8")
      case True
      then show ?thesis using i m by (simp add: IH(1))
    next
      case False
      note ne8 = False
      show ?thesis
      proof (cases "i = off + m")
        case True
        then show ?thesis using i m by (simp add: IH(1))
      next
        case False
        have "(data (self ?\<tau>))
            [off + m := box_muller_cos E T mean std (?d ! (off + m)) (?d ! (off + m + 8)),
             off + m + 8 := box_muller_sin E T mean std (?d ! (off + m)) (?d ! (off + m + 8))] ! i =
             data (self ?\<tau>) ! i"
          using False ne8 by simp
        also have "\<dots> = (if off \<le> i \<and> i < off + m
               then box_muller_cos E T mean std (?d ! i) (?d ! (i + 8))
               else if off + 8 \<le> i \<and> i < off + 8 + m
               then box_muller_sin E T mean std (?d ! (i - 8)) (?d ! i)
               else ?d ! i)"
          by (rule IH(2) [OF i])
        also have "\<dots> = (if off \<le> i \<and> i < off + Suc m
           then box_muller_cos E T mean std (?d ! i) (?d ! (i + 8))
           else if off + 8 \<le> i \<and> i < off + 8 + Suc m
           then box_muller_sin E T mean std (?d ! (i - 8)) (?d ! i)
           else ?d ! i)"
          using False ne8 by auto
        finally show ?thesis .
      qed
    qed
  qed
qed

lemma nth_take_drop: "k < n \<Longrightarrow> off + n \<le> length xs \<Longrightarrow> take n (drop off xs) ! k = xs ! (off + k)"
  by simp

lemma acts_normal_fill_16:
  "acts (\<lambda>off. normal_fill_16 E T off mean std)
     (box_muller_16 (box_muller_cos E T mean std) (box_muller_sin E T mean std))"
  unfolding acts_def
proof (intro allI impI)
  fix off and \<sigma> :: "('a, 'b) state"
  assume a: "off + 16 \<le> numel \<sigma>"
  let ?d = "data (self \<sigma>)"
  have l: "off + 16 \<le> length ?d" using a by (simp add: numel_def)
  note F = fold_normal_fill_16_step_data [of 8 off \<sigma> E T mean std, OF _ l, simplified]
  have n: "numel (normal_fill_16 E T off mean std \<sigma>) = numel \<sigma>"
    using F by (simp add: normal_fill_16_def numel_def)
  have e: "data (self (normal_fill_16 E T off mean std \<sigma>)) ! i =
           (if off \<le> i \<and> i < off + 16
            then box_muller_16 (box_muller_cos E T mean std) (box_muller_sin E T mean std)
                   (take 16 (drop off ?d)) ! (i - off)
            else ?d ! i)" if i: "i < numel \<sigma>" for i
  proof (cases "off \<le> i \<and> i < off + 16")
    case False
    then show ?thesis
      using F i by (auto simp: normal_fill_16_def numel_def)
  next
    case True
    then obtain k where k: "i = off + k" "k < 16"
      by (metis add_less_cancel_left le_Suc_ex)
    have x: "take 16 (drop off ?d) ! j = ?d ! (off + j)" if "j < 16" for j
      using that l by simp
    show ?thesis
    proof (cases "k < 8")
      case True
      then show ?thesis
        using F i k l by (simp add: normal_fill_16_def numel_def nth_box_muller_16 x add.assoc)
    next
      case False
      then have "off + k - 8 = off + (k - 8)" "k - 8 < 16" "off + 8 \<le> off + k"
        using k(2) by simp_all
      then show ?thesis
        using F i k l False
        by (simp add: normal_fill_16_def numel_def nth_box_muller_16 x)
    qed
  qed
  show "numel (normal_fill_16 E T off mean std \<sigma>) = numel \<sigma> \<and>
        (\<forall>i<numel \<sigma>. data (self (normal_fill_16 E T off mean std \<sigma>)) ! i =
           (if off \<le> i \<and> i < off + 16
            then box_muller_16 (box_muller_cos E T mean std) (box_muller_sin E T mean std)
                   (take 16 (drop off ?d)) ! (i - off)
            else ?d ! i))"
    using n e by blast
qed

lemma fold_store_data:
  assumes "off + m \<le> length (data (self \<sigma>))"
  shows "length (data (self (fold (\<lambda>k. store (off + k) (vec ! k)) [0..<m] \<sigma>))) =
           length (data (self \<sigma>)) \<and>
         (\<forall>i < length (data (self \<sigma>)).
            data (self (fold (\<lambda>k. store (off + k) (vec ! k)) [0..<m] \<sigma>)) ! i =
              (if off \<le> i \<and> i < off + m then vec ! (i - off) else data (self \<sigma>) ! i))"
  using assms
proof (induction m)
  case 0
  then show ?case by auto
next
  case (Suc m)
  then have IH: "length (data (self (fold (\<lambda>k. store (off + k) (vec ! k)) [0..<m] \<sigma>))) =
           length (data (self \<sigma>))"
    "\<And>i. i < length (data (self \<sigma>)) \<Longrightarrow>
            data (self (fold (\<lambda>k. store (off + k) (vec ! k)) [0..<m] \<sigma>)) ! i =
              (if off \<le> i \<and> i < off + m then vec ! (i - off) else data (self \<sigma>) ! i)"
    by simp_all
  show ?case
  proof (intro conjI allI impI)
    show "length (data (self (fold (\<lambda>k. store (off + k) (vec ! k)) [0..<Suc m] \<sigma>))) =
          length (data (self \<sigma>))"
      by (simp add: IH(1))
  next
    fix i assume i: "i < length (data (self \<sigma>))"
    show "data (self (fold (\<lambda>k. store (off + k) (vec ! k)) [0..<Suc m] \<sigma>)) ! i =
          (if off \<le> i \<and> i < off + Suc m then vec ! (i - off) else data (self \<sigma>) ! i)"
    proof (cases "i = off + m")
      case True
      then show ?thesis using i by (simp add: IH(1))
    next
      case False
      then show ?thesis using i IH(2) [OF i] by auto
    qed
  qed
qed

lemma store_vec_data:
  assumes "off + length vec \<le> length (data (self \<sigma>))"
  shows "length (data (self (store_vec off vec \<sigma>))) = length (data (self \<sigma>))"
    and "i < length (data (self \<sigma>)) \<Longrightarrow>
         data (self (store_vec off vec \<sigma>)) ! i =
           (if off \<le> i \<and> i < off + length vec then vec ! (i - off) else data (self \<sigma>) ! i)"
  using fold_store_data [OF assms] by (simp_all add: store_vec_def)

lemma map2_same: "map2 f (map p xs) (map q xs) = map (\<lambda>x. f (p x) (q x)) xs"
  by (induction xs) simp_all

lemma nth_loadu: "k < n \<Longrightarrow> loadu n off \<sigma> ! k = data (self \<sigma>) ! (off + k)"
  by (simp add: loadu_def)

lemma acts_normal_fill_16_vectorize:
  assumes v: "Vec_size E = 8"
  shows "acts (\<lambda>off. normal_fill_16_vectorize E off tp one mt mean std)
     (box_muller_16 (vec_box_muller_cos E tp one mt mean std) (vec_box_muller_sin E tp one mt mean std))"
  unfolding acts_def
proof (intro allI impI)
  fix off and \<sigma> :: "('a, 'b) state"
  assume a: "off + 16 \<le> numel \<sigma>"
  let ?d = "data (self \<sigma>)"
  let ?c = "vec_box_muller_cos E tp one mt mean std"
  let ?s = "vec_box_muller_sin E tp one mt mean std"
  let ?o1 = "map (\<lambda>k. ?c (?d ! (off + k)) (?d ! (off + 8 + k))) [0..<8]"
  let ?o2 = "map (\<lambda>k. ?s (?d ! (off + k)) (?d ! (off + 8 + k))) [0..<8]"
  have l: "off + 16 \<le> length ?d" using a by (simp add: numel_def)
  have d: "normal_fill_16_vectorize E off tp one mt mean std \<sigma> =
           store_vec (off + 8) ?o2 (store_vec off ?o1 \<sigma>)"
    unfolding normal_fill_16_vectorize_def Let_def v loadu_def map_map map2_same
    by (simp add: vec_box_muller_cos_def vec_box_muller_sin_def comp_def add.assoc)
  let ?\<tau> = "store_vec off ?o1 \<sigma>"
  have l1: "off + length ?o1 \<le> length ?d" using l by simp
  have t1: "length (data (self ?\<tau>)) = length ?d"
    by (rule store_vec_data(1) [OF l1])
  have t2: "data (self ?\<tau>) ! i = (if off \<le> i \<and> i < off + 8 then ?o1 ! (i - off) else ?d ! i)"
    if "i < length ?d" for i
    using store_vec_data(2) [OF l1 that] by simp
  have l2: "off + 8 + length ?o2 \<le> length (data (self ?\<tau>))" using l t1 by simp
  have u1: "length (data (self (store_vec (off + 8) ?o2 ?\<tau>))) = length ?d"
    using store_vec_data(1) [OF l2] t1 by simp
  have u2: "data (self (store_vec (off + 8) ?o2 ?\<tau>)) ! i =
            (if off + 8 \<le> i \<and> i < off + 16 then ?o2 ! (i - (off + 8)) else data (self ?\<tau>) ! i)"
    if "i < length ?d" for i
    using store_vec_data(2) [OF l2, of i] that t1 by (simp add: add.assoc)
  have x: "take 16 (drop off ?d) ! j = ?d ! (off + j)" if "j < 16" for j
    using that l by simp
  have e: "data (self (normal_fill_16_vectorize E off tp one mt mean std \<sigma>)) ! i =
           (if off \<le> i \<and> i < off + 16
            then box_muller_16 ?c ?s (take 16 (drop off ?d)) ! (i - off)
            else ?d ! i)" if i: "i < numel \<sigma>" for i
  proof -
    have i': "i < length ?d" using i by (simp add: numel_def)
    consider "i < off \<or> off + 16 \<le> i" | k where "i = off + k" "k < 8"
      | k where "i = off + 8 + k" "k < 8"
    proof (cases "i < off \<or> off + 16 \<le> i")
      case True
      then show ?thesis using that by blast
    next
      case False
      show ?thesis
      proof (cases "i < off + 8")
        case True
        then have "i = off + (i - off)" "i - off < 8" using False by simp_all
        then show ?thesis using that by blast
      next
        case False
        note F2 = False
        from \<open>\<not> (i < off \<or> off + 16 \<le> i)\<close> F2
        have "i = off + 8 + (i - off - 8)" "i - off - 8 < 8" by simp_all
        then show ?thesis using that by blast
      qed
    qed
    then show ?thesis
    proof cases
      case 1
      then show ?thesis unfolding d using u2 [OF i'] t2 [OF i'] by auto
    next
      case (2 k)
      then show ?thesis
        unfolding d using u2 [OF i'] t2 [OF i'] l
        by (simp add: nth_box_muller_16 ac_simps)
    next
      case (3 k)
      then have "off + 8 + k - off = k + 8" "k + 8 - 8 = k" by simp_all
      then show ?thesis
        unfolding d using u2 [OF i'] 3 l
        by (simp add: nth_box_muller_16 ac_simps)
    qed
  qed
  have n: "numel (normal_fill_16_vectorize E off tp one mt mean std \<sigma>) = numel \<sigma>"
    unfolding d using u1 by (simp add: numel_def)
  show "numel (normal_fill_16_vectorize E off tp one mt mean std \<sigma>) = numel \<sigma> \<and>
        (\<forall>i<numel \<sigma>. data (self (normal_fill_16_vectorize E off tp one mt mean std \<sigma>)) ! i =
           (if off \<le> i \<and> i < off + 16
            then box_muller_16 ?c ?s (take 16 (drop off ?d)) ! (i - off)
            else ?d ! i))"
    using n e by blast
qed

lemma take_drop_agree:
  assumes "length xs = length ys" and "\<And>k. m \<le> k \<Longrightarrow> k < length xs \<Longrightarrow> xs ! k = ys ! k"
  shows "take n (drop m xs) = take n (drop m ys)"
proof (rule nth_equalityI)
  show "length (take n (drop m xs)) = length (take n (drop m ys))"
    using assms(1) by simp
next
  fix k assume "k < length (take n (drop m xs))"
  then have k: "k < n" "m + k < length xs" by auto
  then show "take n (drop m xs) ! k = take n (drop m ys) ! k"
    using assms by simp
qed

lemma block_loop_data:
  assumes "acts block blk" and "n \<le> numel \<sigma>"
  shows "numel (block_loop block i n \<sigma>) = numel \<sigma> \<and>
         (\<forall>j < numel \<sigma>. data (self (block_loop block i n \<sigma>)) ! j =
            (if i \<le> j \<and> j < i + 16 * ((n - i) div 16)
             then blk (take 16 (drop (i + 16 * ((j - i) div 16)) (data (self \<sigma>)))) ! ((j - i) mod 16)
             else data (self \<sigma>) ! j))"
  using assms
proof (induction block i n \<sigma> rule: block_loop.induct)
  case (1 block i n \<sigma>)
  let ?d = "data (self \<sigma>)"
  show ?case
  proof (cases "int i < int n - 15")
    case False
    then have z: "(n - i) div 16 = 0" by simp
    have "block_loop block i n \<sigma> = \<sigma>"
      using False by (subst block_loop.simps) simp
    then show ?thesis by (auto simp: z)
  next
    case True
    then have le: "i + 16 \<le> n" by linarith
    then have le': "i + 16 \<le> numel \<sigma>" using "1.prems"(2) by simp
    let ?\<tau> = "block i \<sigma>"
    let ?d' = "data (self ?\<tau>)"
    have c: "(n - i) div 16 = Suc ((n - (i + 16)) div 16)"
      using le by (simp add: le_div_geq [of 16 "n - i"])
    have u: "block_loop block i n \<sigma> = block_loop block (i + 16) n ?\<tau>"
      using True by (subst block_loop.simps) simp
    have A: "numel ?\<tau> = numel \<sigma>"
      and B: "\<And>j. j < numel \<sigma> \<Longrightarrow> ?d' ! j =
           (if i \<le> j \<and> j < i + 16 then blk (take 16 (drop i ?d)) ! (j - i) else ?d ! j)"
      using "1.prems"(1) le' unfolding acts_def by blast+
    have n': "n \<le> numel ?\<tau>" using "1.prems"(2) A by simp
    note IH = "1.IH" [OF True "1.prems"(1) n']
    have N: "numel (block_loop block (i + 16) n ?\<tau>) = numel \<sigma>"
      using IH A by simp
    have J: "data (self (block_loop block (i + 16) n ?\<tau>)) ! j =
            (if i + 16 \<le> j \<and> j < i + 16 + 16 * ((n - (i + 16)) div 16)
             then blk (take 16 (drop (i + 16 + 16 * ((j - (i + 16)) div 16)) ?d')) ! ((j - (i + 16)) mod 16)
             else ?d' ! j)" if "j < numel \<sigma>" for j
      using IH A that by simp
    have len: "length ?d' = length ?d"
      using A by (simp add: numel_def)
    have agree: "take 16 (drop m ?d') = take 16 (drop m ?d)" if "i + 16 \<le> m" for m
    proof (rule take_drop_agree [OF len])
      fix k assume "m \<le> k" "k < length ?d'"
      then show "?d' ! k = ?d ! k"
        using B [of k] that len by (simp add: numel_def)
    qed
    have E: "data (self (block_loop block (i + 16) n ?\<tau>)) ! j =
            (if i \<le> j \<and> j < i + 16 * Suc ((n - (i + 16)) div 16)
             then blk (take 16 (drop (i + 16 * ((j - i) div 16)) ?d)) ! ((j - i) mod 16)
             else ?d ! j)" if j: "j < numel \<sigma>" for j
    proof -
      consider "j < i" | "i \<le> j" "j < i + 16" | "i + 16 \<le> j" by linarith
      then show ?thesis
      proof cases
        case 1
        then show ?thesis using J [OF j] B [OF j] by simp
      next
        case 2
        then have "(j - i) div 16 = 0" "(j - i) mod 16 = j - i" by simp_all
        then show ?thesis using J [OF j] B [OF j] 2 by simp
      next
        case 3
        have q: "(j - i) div 16 = Suc ((j - (i + 16)) div 16)"
          using 3 by (simp add: le_div_geq [of 16 "j - i"])
        have r: "(j - i) mod 16 = (j - (i + 16)) mod 16"
          using 3 by (simp add: le_mod_geq [of 16 "j - i"])
        have m: "i + 16 * Suc ((j - (i + 16)) div 16) = i + 16 + 16 * ((j - (i + 16)) div 16)"
          by simp
        have "i + 16 \<le> i + 16 + 16 * ((j - (i + 16)) div 16)" by simp
        note ag = agree [OF this]
        show ?thesis
          using J [OF j] B [OF j] 3 unfolding q r m ag by simp
      qed
    qed
    show ?thesis
      unfolding u c using N E by blast
  qed
qed

lemma uniform_loop_data:
  assumes "off + m \<le> length (data (self \<sigma>))"
  shows "data (self (uniform_loop E T off [0..<m] \<sigma>)) =
           take off (data (self \<sigma>)) @ draws E (replicate m (uniform01 E T)) (generator \<sigma>) @
           drop (off + m) (data (self \<sigma>))"
proof -
  have z: "map (\<lambda>i. (off + i, ())) [0..<m] =
           zip [off..<off + length (replicate m ())] (replicate m ())"
    by (simp add: list_eq_iff_nth_eq)
  have "data (self (uniform_loop E T off [0..<m] \<sigma>)) =
        data (self (snd (serial_loop (\<lambda>u::unit. sample_as E ((\<lambda>u. uniform01 E T) u) ((\<lambda>u v. v) u))
          (zip [off..<off + length (replicate m ())] (replicate m ())) \<sigma>)))"
    by (simp only: uniform_loop_serial z)
  also have "\<dots> = take off (data (self \<sigma>)) @
        map2 (\<lambda>u v. v) (replicate m ()) (draws E (map (\<lambda>u. uniform01 E T) (replicate m ())) (generator \<sigma>)) @
        drop (off + length (replicate m ())) (data (self \<sigma>))"
    by (rule serial_loop_data) (use assms in simp)
  also have "map2 (\<lambda>u v. v) (replicate m ()) (draws E (map (\<lambda>u. uniform01 E T) (replicate m ())) (generator \<sigma>)) =
        draws E (replicate m (uniform01 E T)) (generator \<sigma>)"
    by (simp add: list_eq_iff_nth_eq)
  finally show ?thesis by simp
qed

lemma bulk_fill_data:
  assumes eff: "\<And>i \<sigma>. events (block i \<sigma>) = events \<sigma> @ bev i \<and> frame \<sigma> (block i \<sigma>)"
    and act: "acts block blk"
    and n: "n = numel \<sigma>" and big: "16 \<le> n"
    and \<sigma>1: "\<sigma>1 = uniform_loop E T 0 [0..<n] \<sigma>"
    and \<sigma>2: "\<sigma>2 = block_loop block 0 n \<sigma>1"
    and \<sigma>3: "\<sigma>3 = (if n mod 16 \<noteq> 0 then block (n - 16) (uniform_loop E T (n - 16) [0..<16] \<sigma>2)
                   else \<sigma>2)"
  shows "data (self \<sigma>1) = first_pass E T \<sigma> \<and>
         data (self \<sigma>2) = blocks_data blk n (first_pass E T \<sigma>) \<and>
         data (self \<sigma>3) = bulk_data blk n (first_pass E T \<sigma>) (tail_pass E T \<sigma>)"
proof -
  let ?u = "uniform01 E T"
  let ?us = "first_pass E T \<sigma>"
  let ?ts = "tail_pass E T \<sigma>"
  have lus: "length ?us = n" by (simp add: first_pass_def n)
  have lts: "length ?ts = 16" by (simp add: tail_pass_def)
  have d1: "data (self \<sigma>1) = ?us"
    using uniform_loop_data [of 0 n \<sigma> E T] by (simp add: \<sigma>1 n numel_def first_pass_def)
  have n1: "numel \<sigma>1 = n"
    using d1 lus by (simp add: numel_def)
  have g1: "generator \<sigma>1 = after_draws E (replicate n ?u) (generator \<sigma>)"
    by (simp add: \<sigma>1 uniform_loop_upt_effects)
  have f2: "frame \<sigma>1 \<sigma>2"
    using block_loop_effects [of block bev 0 n \<sigma>1, OF eff] by (simp add: \<sigma>2)
  have g2: "generator \<sigma>2 = after_draws E (replicate n ?u) (generator \<sigma>)"
    using f2 g1 by (simp add: frame_def)
  have L: "numel \<sigma>2 = n"
    and D2: "\<And>j. j < n \<Longrightarrow> data (self \<sigma>2) ! j =
            (if j < 16 * (n div 16) then blk (take 16 (drop (16 * (j div 16)) ?us)) ! (j mod 16)
             else ?us ! j)"
    using block_loop_data [OF act, of n \<sigma>1 0] n1 d1 by (simp_all add: \<sigma>2)
  have l2: "length (data (self \<sigma>2)) = n"
    using L by (simp add: numel_def)
  have d2: "data (self \<sigma>2) = blocks_data blk n ?us"
    by (rule nth_equalityI) (simp_all add: l2 blocks_data_def D2)
  show ?thesis
  proof (cases "n mod 16 = 0")
    case True
    then have full: "16 * (n div 16) = n" by auto
    have "data (self \<sigma>2) = bulk_data blk n ?us ?ts"
      by (rule nth_equalityI) (simp_all add: l2 bulk_data_def D2 full True)
    then show ?thesis using d1 d2 True by (simp add: \<sigma>3)
  next
    case False
    let ?\<sigma>t = "uniform_loop E T (n - 16) [0..<16] \<sigma>2"
    have dt: "data (self ?\<sigma>t) = take (n - 16) (data (self \<sigma>2)) @ ?ts"
      using uniform_loop_data [of "n - 16" 16 \<sigma>2 E T] big l2
      by (simp add: tail_pass_def g2 n)
    have lt: "numel ?\<sigma>t = n"
      using dt lts l2 big by (simp add: numel_def)
    have pre: "n - 16 + 16 \<le> numel ?\<sigma>t" using lt big by simp
    have N3: "numel (block (n - 16) ?\<sigma>t) = n"
      and D3: "\<And>j. j < n \<Longrightarrow> data (self (block (n - 16) ?\<sigma>t)) ! j =
            (if n - 16 \<le> j \<and> j < n - 16 + 16
             then blk (take 16 (drop (n - 16) (data (self ?\<sigma>t)))) ! (j - (n - 16))
             else data (self ?\<sigma>t) ! j)"
      using act pre lt unfolding acts_def by (metis)+
    have sl: "take 16 (drop (n - 16) (data (self ?\<sigma>t))) = ?ts"
      using l2 big lts by (simp add: dt)
    have below: "n - 16 < 16 * (n div 16)"
    proof -
      have "n = 16 * (n div 16) + n mod 16" by simp
      moreover have "n mod 16 < 16" by simp
      ultimately show ?thesis using big by linarith
    qed
    have "data (self (block (n - 16) ?\<sigma>t)) = bulk_data blk n ?us ?ts"
    proof (rule nth_equalityI)
      show "length (data (self (block (n - 16) ?\<sigma>t))) = length (bulk_data blk n ?us ?ts)"
        using N3 by (simp add: numel_def bulk_data_def)
    next
      fix j assume "j < length (data (self (block (n - 16) ?\<sigma>t)))"
      then have j: "j < n" using N3 by (simp add: numel_def)
      show "data (self (block (n - 16) ?\<sigma>t)) ! j = bulk_data blk n ?us ?ts ! j"
      proof (cases "n - 16 \<le> j")
        case True
        then show ?thesis
          using D3 [OF j] j big False by (simp add: sl bulk_data_def)
      next
        case False
        then have "j < n - 16" by simp
        then have "data (self ?\<sigma>t) ! j = data (self \<sigma>2) ! j"
          using l2 by (simp add: dt nth_append)
        moreover have "j < 16 * (n div 16)"
          using \<open>j < n - 16\<close> below by simp
        ultimately show ?thesis
          using D3 [OF j] D2 [OF j] j False \<open>n mod 16 \<noteq> 0\<close> by (simp add: bulk_data_def)
      qed
    qed
    then show ?thesis using d1 d2 False by (simp add: \<sigma>3)
  qed
qed

lemma acts_vec_block:
  "acts (\<lambda>i. if Vec_size E = 8
              then normal_fill_16_vectorize E i (static_cast E kDouble kFloat (two_pi E))
                     (from_int64 E kFloat 1) (from_int64 E kFloat (- 2)) mean std
              else normal_fill_16 E T i mean std)
     (vector_block E T mean std)"
proof (cases "Vec_size E = 8")
  case True
  then show ?thesis
    using acts_normal_fill_16_vectorize [OF True] by (simp add: vector_block_def)
next
  case False
  then show ?thesis
    using acts_normal_fill_16 [of E T mean std] by (simp add: vector_block_def scalar_block_def)
qed

lemma normal_fill_data:
  assumes "16 \<le> numel \<sigma>"
  shows "data (self (uniform_loop E T 0 [0..<numel \<sigma>] \<sigma>)) = first_pass E T \<sigma> \<and>
         data (self (block_loop (\<lambda>i. normal_fill_16 E T i mean std) 0 (numel \<sigma>)
                 (uniform_loop E T 0 [0..<numel \<sigma>] \<sigma>))) =
           blocks_data (scalar_block E T mean std) (numel \<sigma>) (first_pass E T \<sigma>) \<and>
         data (self (snd (normal_fill E T mean std \<sigma>))) =
           bulk_data (scalar_block E T mean std) (numel \<sigma>) (first_pass E T \<sigma>) (tail_pass E T \<sigma>)"
proof -
  let ?n = "numel \<sigma>"
  let ?\<sigma>1 = "uniform_loop E T 0 [0..<?n] \<sigma>"
  let ?block = "\<lambda>i. normal_fill_16 E T i mean std"
  let ?\<sigma>2 = "block_loop ?block 0 ?n ?\<sigma>1"
  let ?\<sigma>3 = "if ?n mod 16 \<noteq> 0 then ?block (?n - 16) (uniform_loop E T (?n - 16) [0..<16] ?\<sigma>2)
             else ?\<sigma>2"
  have r: "normal_fill E T mean std \<sigma> = (None, ?\<sigma>3)"
    using assms by (simp add: normal_fill_def Let_def)
  have a: "acts ?block (scalar_block E T mean std)"
    unfolding scalar_block_def by (rule acts_normal_fill_16)
  have "data (self ?\<sigma>1) = first_pass E T \<sigma> \<and>
        data (self ?\<sigma>2) = blocks_data (scalar_block E T mean std) ?n (first_pass E T \<sigma>) \<and>
        data (self ?\<sigma>3) =
          bulk_data (scalar_block E T mean std) ?n (first_pass E T \<sigma>) (tail_pass E T \<sigma>)"
    by (rule bulk_fill_data [of ?block fill16_events _ ?n \<sigma> ?\<sigma>1 E T ?\<sigma>2 ?\<sigma>3, OF _ a _ assms])
       (simp_all only: normal_fill_16_effects)
  then show ?thesis
    unfolding r snd_conv by simp
qed

lemma normal_fill_vectorize_data:
  assumes "16 \<le> numel \<sigma>"
  shows "data (self (snd (normal_fill_vectorize E T mean std \<sigma>))) =
           bulk_data (vector_block E T mean std) (numel \<sigma>) (first_pass E T \<sigma>) (tail_pass E T \<sigma>)"
proof -
  let ?n = "numel \<sigma>"
  let ?\<sigma>1 = "uniform_loop E T 0 [0..<?n] \<sigma>"
  let ?block = "\<lambda>i. if Vec_size E = 8
                     then normal_fill_16_vectorize E i (static_cast E kDouble kFloat (two_pi E))
                            (from_int64 E kFloat 1) (from_int64 E kFloat (- 2)) mean std
                     else normal_fill_16 E T i mean std"
  let ?\<sigma>2 = "block_loop ?block 0 ?n ?\<sigma>1"
  let ?\<sigma>3 = "if ?n mod 16 \<noteq> 0 then ?block (?n - 16) (uniform_loop E T (?n - 16) [0..<16] ?\<sigma>2)
             else ?\<sigma>2"
  have r: "normal_fill_vectorize E T mean std \<sigma> = (None, ?\<sigma>3)"
    using assms by (simp add: normal_fill_vectorize_def Let_def)
  have "data (self ?\<sigma>1) = first_pass E T \<sigma> \<and>
        data (self ?\<sigma>2) = blocks_data (vector_block E T mean std) ?n (first_pass E T \<sigma>) \<and>
        data (self ?\<sigma>3) =
          bulk_data (vector_block E T mean std) ?n (first_pass E T \<sigma>) (tail_pass E T \<sigma>)"
    by (rule bulk_fill_data [of ?block "vec_block_events E" _ ?n \<sigma> ?\<sigma>1 E T ?\<sigma>2 ?\<sigma>3,
          OF _ acts_vec_block _ assms])
       (simp_all only: vec_block_effects)
  then show ?thesis
    unfolding r snd_conv by simp
qed

lemma bulk_data_tail:
  assumes "16 \<le> n" "n mod 16 \<noteq> 0" "length (blk ts) = 16"
  shows "bulk_data blk n us ts = take (n - 16) (blocks_data blk n us) @ blk ts"
proof (rule nth_equalityI)
  show "length (bulk_data blk n us ts) = length (take (n - 16) (blocks_data blk n us) @ blk ts)"
    using assms by (simp add: bulk_data_def blocks_data_def)
next
  fix i assume "i < length (bulk_data blk n us ts)"
  then have i: "i < n" by (simp add: bulk_data_def)
  have below: "n - 16 < 16 * (n div 16)"
  proof -
    have "n = 16 * (n div 16) + n mod 16" by simp
    moreover have "n mod 16 < 16" by simp
    ultimately show ?thesis using assms(1) by linarith
  qed
  show "bulk_data blk n us ts ! i = (take (n - 16) (blocks_data blk n us) @ blk ts) ! i"
    using i assms below by (simp add: bulk_data_def blocks_data_def nth_append)
qed

lemma length_scalar_block [simp]: "length (scalar_block E T mean std xs) = 16"
  by (simp add: scalar_block_def)

lemma length_vector_block [simp]: "length (vector_block E T mean std xs) = 16"
  by (simp add: vector_block_def)

lemma bulk_data_full: "n mod 16 = 0 \<Longrightarrow> bulk_data blk n us ts = blocks_data blk n us"
  by (rule nth_equalityI) (auto simp: bulk_data_def blocks_data_def)

lemma bulk_data_cases:
  assumes "16 \<le> n" "length (blk ts) = 16"
  shows "bulk_data blk n us ts =
           (if n mod 16 \<noteq> 0 then take (n - 16) (blocks_data blk n us) @ blk ts
            else blocks_data blk n us)"
proof (cases "n mod 16 = 0")
  case True
  then show ?thesis by (simp add: bulk_data_full)
next
  case False
  then show ?thesis using bulk_data_tail [of n blk ts us] assms by simp
qed

text \<open>
  C8. For a bulk normal fill, scalar or vectorized, of at least 16 elements: after the
  complete blocks of 16 are processed the buffer is \<open>blocks_data\<close>; when the element count
  is not a multiple of 16 the output is that buffer with its last 16 positions replaced by
  the Box-Muller transform of 16 fresh uniforms (the tail pass), and when it is a multiple
  of 16 the output is that buffer. The effects are those of \<open>bulk_events\<close>. The positions
  that the last block and an earlier block both write are those from \<open>size - 16\<close> up to the
  end of the last complete block: \<open>16 - size mod 16\<close> of them, at least 1 and at most 15.
  Two different complete blocks write no common position.
\<close>

theorem normal_fill_tail_recompute:
  fixes \<sigma> :: "('g, 'v) state"
  assumes "16 \<le> numel \<sigma>"
  shows "data (self (block_loop (\<lambda>i. normal_fill_16 E T i mean std) 0 (numel \<sigma>)
                 (uniform_loop E T 0 [0..<numel \<sigma>] \<sigma>))) =
           blocks_data (scalar_block E T mean std) (numel \<sigma>) (first_pass E T \<sigma>) \<and>
         data (self (snd (normal_fill E T mean std \<sigma>))) =
           (if numel \<sigma> mod 16 \<noteq> 0
            then take (numel \<sigma> - 16)
                   (blocks_data (scalar_block E T mean std) (numel \<sigma>) (first_pass E T \<sigma>)) @
                 scalar_block E T mean std (tail_pass E T \<sigma>)
            else blocks_data (scalar_block E T mean std) (numel \<sigma>) (first_pass E T \<sigma>)) \<and>
         data (self (snd (normal_fill_vectorize E T mean std \<sigma>))) =
           (if numel \<sigma> mod 16 \<noteq> 0
            then take (numel \<sigma> - 16)
                   (blocks_data (vector_block E T mean std) (numel \<sigma>) (first_pass E T \<sigma>)) @
                 vector_block E T mean std (tail_pass E T \<sigma>)
            else blocks_data (vector_block E T mean std) (numel \<sigma>) (first_pass E T \<sigma>)) \<and>
         new_events \<sigma> (normal_fill E T mean std \<sigma>) =
           bulk_events (uniform01 E T) fill16_events (numel \<sigma>) \<and>
         new_events \<sigma> (normal_fill_vectorize E T mean std \<sigma>) =
           bulk_events (uniform01 E T) (vec_block_events E) (numel \<sigma>) \<and>
         (numel \<sigma> mod 16 \<noteq> 0 \<longrightarrow>
            rewritten (fill16_events :: nat \<Rightarrow> 'v event list) (numel \<sigma>) =
              {numel \<sigma> - 16..<16 * (numel \<sigma> div 16)} \<and>
            rewritten (vec_block_events E) (numel \<sigma>) = {numel \<sigma> - 16..<16 * (numel \<sigma> div 16)} \<and>
            card {numel \<sigma> - 16..<16 * (numel \<sigma> div 16)} = 16 - numel \<sigma> mod 16 \<and>
            1 \<le> 16 - numel \<sigma> mod 16 \<and> 16 - numel \<sigma> mod 16 \<le> 15) \<and>
         (numel \<sigma> mod 16 = 0 \<longrightarrow>
            (\<forall>k l. k \<noteq> l \<longrightarrow>
               written (fill16_events (16 * k) :: 'v event list) \<inter>
                 written (fill16_events (16 * l) :: 'v event list) = {} \<and>
               written (vec_block_events E (16 * k)) \<inter> written (vec_block_events E (16 * l)) = {}))"
proof -
  note D = normal_fill_data [OF assms, of E T mean std]
  have d1: "data (self (snd (normal_fill E T mean std \<sigma>))) =
           (if numel \<sigma> mod 16 \<noteq> 0
            then take (numel \<sigma> - 16)
                   (blocks_data (scalar_block E T mean std) (numel \<sigma>) (first_pass E T \<sigma>)) @
                 scalar_block E T mean std (tail_pass E T \<sigma>)
            else blocks_data (scalar_block E T mean std) (numel \<sigma>) (first_pass E T \<sigma>))"
    using D bulk_data_cases [of "numel \<sigma>" "scalar_block E T mean std" "tail_pass E T \<sigma>"] assms
    by simp
  have d2: "data (self (snd (normal_fill_vectorize E T mean std \<sigma>))) =
           (if numel \<sigma> mod 16 \<noteq> 0
            then take (numel \<sigma> - 16)
                   (blocks_data (vector_block E T mean std) (numel \<sigma>) (first_pass E T \<sigma>)) @
                 vector_block E T mean std (tail_pass E T \<sigma>)
            else blocks_data (vector_block E T mean std) (numel \<sigma>) (first_pass E T \<sigma>))"
    using normal_fill_vectorize_data [OF assms, of E T mean std]
      bulk_data_cases [of "numel \<sigma>" "vector_block E T mean std" "tail_pass E T \<sigma>"] assms
    by simp
  show ?thesis
    by (intro conjI D [THEN conjunct2, THEN conjunct1] d1 d2
        normal_fill_tail_effects [OF assms])
qed

theorem normal_fill_tail_recompute_witness:
  "16 \<le> numel (state_of kDouble (replicate 17 0) 0) \<and>
   data (self (snd (normal_fill counting kDouble 0 1 (state_of kDouble (replicate 17 0) 0)))) =
     take 1 (blocks_data (scalar_block counting kDouble 0 1) 17
               (first_pass counting kDouble (state_of kDouble (replicate 17 0) 0))) @
     scalar_block counting kDouble 0 1 (tail_pass counting kDouble (state_of kDouble (replicate 17 0) 0)) \<and>
   new_events (state_of kDouble (replicate 17 0) 0)
     (normal_fill counting kDouble 0 1 (state_of kDouble (replicate 17 0) 0)) =
     bulk_events (uniform01 counting kDouble) fill16_events 17 \<and>
   rewritten (fill16_events :: nat \<Rightarrow> int event list) 17 = {1..<16} \<and>
   card {1..<16 :: nat} = 15"
proof -
  have t: "numel (state_of kDouble (replicate 17 0) 0) = 17"
    by (simp add: numel_def state_of_def tensor_of_def)
  have h: "16 \<le> numel (state_of kDouble (replicate 17 0) 0)"
    by (simp add: t)
  note T = normal_fill_tail_recompute [OF h, of counting kDouble 0 1, unfolded t]
  have m: "(17::nat) mod 16 \<noteq> 0" by simp
  have d: "data (self (snd (normal_fill counting kDouble 0 1 (state_of kDouble (replicate 17 0) 0)))) =
     take 1 (blocks_data (scalar_block counting kDouble 0 1) 17
               (first_pass counting kDouble (state_of kDouble (replicate 17 0) 0))) @
     scalar_block counting kDouble 0 1 (tail_pass counting kDouble (state_of kDouble (replicate 17 0) 0))"
    using T [THEN conjunct2, THEN conjunct1] by simp
  note O = T [THEN conjunct2, THEN conjunct2, THEN conjunct2]
  note R = O [THEN conjunct2, THEN conjunct2, THEN conjunct1, rule_format, OF m]
  have r: "rewritten (fill16_events :: nat \<Rightarrow> int event list) 17 = {1..<16}"
    using R [THEN conjunct1] by simp
  show ?thesis
    using h d O [THEN conjunct1] r by simp
qed

text \<open>
  C10. In the scalar bulk path (at least 16 elements) the first pass leaves in every
  element its own uniform draw, the \<open>i\<close>-th draw at element \<open>i\<close>; the loop over the blocks
  then transforms the complete blocks of that buffer, and the output is \<open>bulk_data\<close> of
  the first pass and the tail pass. In the effects, the first \<open>size\<close> draws come before
  anything else; then come the stores of the blocks of 16, with no draw among them; what
  follows the first pass holds exactly 16 draws when the size is not a multiple of 16 and
  none when it is. The generator is left where \<open>size\<close> plus these draws of
  \<open>uniform(0, 1)\<close> leave it. The vectorized path draws in the same way.
\<close>

theorem normal_fill_draws_first:
  fixes \<sigma> :: "('g, 'v) state"
  assumes "16 \<le> numel \<sigma>"
  shows "data (self (uniform_loop E T 0 [0..<numel \<sigma>] \<sigma>)) = first_pass E T \<sigma> \<and>
         data (self (block_loop (\<lambda>i. normal_fill_16 E T i mean std) 0 (numel \<sigma>)
                 (uniform_loop E T 0 [0..<numel \<sigma>] \<sigma>))) =
           blocks_data (scalar_block E T mean std) (numel \<sigma>) (first_pass E T \<sigma>) \<and>
         data (self (snd (normal_fill E T mean std \<sigma>))) =
           bulk_data (scalar_block E T mean std) (numel \<sigma>) (first_pass E T \<sigma>) (tail_pass E T \<sigma>) \<and>
         data (self (snd (normal_fill_vectorize E T mean std \<sigma>))) =
           bulk_data (vector_block E T mean std) (numel \<sigma>) (first_pass E T \<sigma>) (tail_pass E T \<sigma>) \<and>
         fst (normal_fill E T mean std \<sigma>) = None \<and>
         take (2 * numel \<sigma>) (new_events \<sigma> (normal_fill E T mean std \<sigma>)) =
           uniform_events (uniform01 E T) 0 (numel \<sigma>) \<and>
         draw_count (take (2 * numel \<sigma>) (new_events \<sigma> (normal_fill E T mean std \<sigma>))) = numel \<sigma> \<and>
         drop (2 * numel \<sigma>) (new_events \<sigma> (normal_fill E T mean std \<sigma>)) =
           concat (map (\<lambda>k. fill16_events (16 * k)) [0..<numel \<sigma> div 16]) @
           (if numel \<sigma> mod 16 \<noteq> 0
            then uniform_events (uniform01 E T) (numel \<sigma> - 16) 16 @ fill16_events (numel \<sigma> - 16)
            else []) \<and>
         draw_count (concat (map (\<lambda>k. fill16_events (16 * k) :: 'v event list)
           [0..<numel \<sigma> div 16])) = 0 \<and>
         draw_count (drop (2 * numel \<sigma>) (new_events \<sigma> (normal_fill E T mean std \<sigma>))) =
           tail_draws (numel \<sigma>) \<and>
         generator (snd (normal_fill E T mean std \<sigma>)) =
           after_draws E (replicate (numel \<sigma> + tail_draws (numel \<sigma>)) (uniform01 E T)) (generator \<sigma>) \<and>
         take (2 * numel \<sigma>) (new_events \<sigma> (normal_fill_vectorize E T mean std \<sigma>)) =
           uniform_events (uniform01 E T) 0 (numel \<sigma>) \<and>
         draw_count (drop (2 * numel \<sigma>) (new_events \<sigma> (normal_fill_vectorize E T mean std \<sigma>))) =
           tail_draws (numel \<sigma>)"
proof -
  note D = normal_fill_data [OF assms, of E T mean std]
  show ?thesis
    by (intro conjI D [THEN conjunct1] D [THEN conjunct2, THEN conjunct1]
        D [THEN conjunct2, THEN conjunct2] normal_fill_vectorize_data [OF assms]
        normal_fill_draw_effects [OF assms])
qed

theorem normal_fill_draws_first_witness:
  "16 \<le> numel (state_of kDouble (replicate 17 0) 0) \<and>
   data (self (uniform_loop counting kDouble 0 [0..<17] (state_of kDouble (replicate 17 0) 0))) =
     first_pass counting kDouble (state_of kDouble (replicate 17 0) 0) \<and>
   data (self (snd (normal_fill counting kDouble 0 1 (state_of kDouble (replicate 17 0) 0)))) =
     bulk_data (scalar_block counting kDouble 0 1) 17
       (first_pass counting kDouble (state_of kDouble (replicate 17 0) 0))
       (tail_pass counting kDouble (state_of kDouble (replicate 17 0) 0)) \<and>
   fst (normal_fill counting kDouble 0 1 (state_of kDouble (replicate 17 0) 0)) = None \<and>
   draw_count (take (2 * 17) (new_events (state_of kDouble (replicate 17 0) 0)
     (normal_fill counting kDouble 0 1 (state_of kDouble (replicate 17 0) 0)))) = 17 \<and>
   draw_count (drop (2 * 17) (new_events (state_of kDouble (replicate 17 0) 0)
     (normal_fill counting kDouble 0 1 (state_of kDouble (replicate 17 0) 0)))) = 16"
proof -
  have t: "numel (state_of kDouble (replicate 17 0) 0) = 17"
    by (simp add: numel_def state_of_def tensor_of_def)
  have h: "16 \<le> numel (state_of kDouble (replicate 17 0) 0)"
    by (simp add: t)
  note T = normal_fill_draws_first [OF h, of counting kDouble 0 1, unfolded t]
  note O = T [THEN conjunct2, THEN conjunct2, THEN conjunct2, THEN conjunct2]
  have d: "tail_draws 17 = 16"
    by (simp add: tail_draws_def)
  show ?thesis
    by (intro conjI h T [THEN conjunct1] T [THEN conjunct2, THEN conjunct2, THEN conjunct1]
        O [THEN conjunct1] O [THEN conjunct2, THEN conjunct2, THEN conjunct1]
        O [THEN conjunct2, THEN conjunct2, THEN conjunct2, THEN conjunct2, THEN conjunct2,
           THEN conjunct1, unfolded d])
qed

subsection \<open>Contiguity decides the path of the normal kernel\<close>



end
